theory Spec2Isabelle
  imports Main "HOL-Library.AList" "HOL-Library.Multiset"
begin

section \<open>The build orchestration of pyavd/cli/build.py\<close>

text \<open>
  The module schedules, for every host of an Ansible inventory, two tasks on a process pool:
  \<^verbatim>\<open>build_structured_config\<close> (stage 1) and \<^verbatim>\<open>build_designed_config\<close> (stage 2), and
  writes one file per host. The functions it imports (\<^verbatim>\<open>validate_inputs\<close>,
  \<^verbatim>\<open>get_avd_facts\<close>, \<^verbatim>\<open>get_device_structured_config\<close>, \<^verbatim>\<open>validate_structured_config\<close>,
  \<^verbatim>\<open>get_device_config\<close>) and the Ansible inventory and variable managers are not part of
  the module: they are parameters of the model, total pure functions on opaque values
  (type variables \<open>'v\<close> host variables, \<open>'f\<close> facts, \<open>'s\<close> structured config,
  \<open>'e\<close> validation error record), as the module uses them.
\<close>

subsection \<open>Data\<close>

type_synonym hostname = string

text \<open>A Python \<^verbatim>\<open>dict\<close> with string keys, in insertion order. \<^verbatim>\<open>d[k] = v\<close> is
  \<^const>\<open>AList.update\<close>: an existing key keeps its place, a new key goes to the end.\<close>

type_synonym 'a dict = "(string \<times> 'a) list"

text \<open>A \<^verbatim>\<open>pathlib.Path\<close> on a POSIX system is its root (empty, \<^verbatim>\<open>/\<close> or
  \<^verbatim>\<open>//\<close>) and its parts: the names between the separators, without the empty ones and
  without \<^verbatim>\<open>.\<close>.\<close>

type_synonym path = "string \<times> string list"

text \<open>The exceptions that leave the module.\<close>

datatype error =
    RuntimeError string
  | ValueError string
  | OverflowError
  | FileNotFoundError path
  | NotADirectoryError path
  | IsADirectoryError path
  | SystemExit int

record 'e ValidationResult =
  failed :: bool
  validation_errors :: "'e list"

record ('v, 'f, 's, 'e) collaborators =
  inventory_hosts :: "string \<Rightarrow> hostname list"
  get_vars :: "string \<Rightarrow> hostname \<Rightarrow> 'v"
  validate_inputs :: "'v \<Rightarrow> 'e ValidationResult"
  get_avd_facts :: "'v dict \<Rightarrow> 'f"
  get_device_structured_config :: "hostname \<Rightarrow> 'v \<Rightarrow> 'f \<Rightarrow> 's"
  validate_structured_config :: "'s \<Rightarrow> 'e ValidationResult"
  get_device_config :: "'s \<Rightarrow> string"

text \<open>
  \<^const>\<open>inventory_hosts\<close> \<open>X src\<close> is the key sequence of
  \<^verbatim>\<open>InventoryManager(sources=[src]).hosts\<close>, and \<^const>\<open>get_vars\<close> \<open>X src hostname\<close> is
  \<^verbatim>\<open>variable_manager.get_vars(host=inventory.get_host(hostname))\<close>.
\<close>

text \<open>What a task does inside its worker process, in program order.\<close>

datatype ('v, 'f, 's, 'e) effect =
    Validate_inputs 'v
  | Get_device_structured_config hostname 'v 'f
  | Validate_structured_config 's
  | Get_device_config 's
  | Print 'e

datatype stage = Stage1 | Stage2

text \<open>What the coordinating process does and observes, in program order.\<close>

datatype ('v, 'f, 's, 'e) event =
    Get_avd_facts "'v dict"
  | Submit1 hostname 'v 'f
  | Result1 hostname 's
  | Submit2 hostname 's
  | Result2 hostname string
  | Write path string
  | Ran stage hostname "('v, 'f, 's, 'e) effect"

text \<open>The file system, as far as \<^verbatim>\<open>open(path, "w")\<close> depends on it: the directories
  that exist and the contents of the regular files. A path names a file by its root and
  parts: the resolution of \<^verbatim>\<open>..\<close> and of symbolic links, permissions and the limits on
  the length of a name are not modelled.\<close>

record filesystem =
  dirs :: "path set"
  files :: "path \<rightharpoonup> string"

subsection \<open>Paths\<close>

text \<open>\<^verbatim>\<open>s.split("/")\<close>.\<close>

fun split_sep :: "string \<Rightarrow> string list" where
  "split_sep [] = [[]]"
| "split_sep (c # cs) =
     (if c = CHR ''/'' then [] # split_sep cs
      else (case split_sep cs of [] \<Rightarrow> [[c]] | x # xs \<Rightarrow> (c # x) # xs))"

text \<open>The parts and the root of one segment, as \<^verbatim>\<open>pathlib\<close> parses it: empty names and
  \<^verbatim>\<open>.\<close> are dropped; exactly two leading separators are kept as the root \<^verbatim>\<open>//\<close>, any
  other number of them is the root \<^verbatim>\<open>/\<close>.\<close>

definition components :: "string \<Rightarrow> string list" where
  "components s = filter (\<lambda>x. x \<noteq> [] \<and> x \<noteq> ''.'') (split_sep s)"

definition root_of :: "string \<Rightarrow> string" where
  "root_of s =
     (if take 2 s = ''//'' \<and> take 3 s \<noteq> ''///'' then ''//''
      else if take 1 s = ''/'' then ''/''
      else [])"

text \<open>\<^verbatim>\<open>p / s\<close>: a segment with a root replaces the path, any other segment adds its
  parts.\<close>

definition joinpath :: "path \<Rightarrow> string \<Rightarrow> path" where
  "joinpath p s =
     (if root_of s = [] then (fst p, snd p @ components s) else (root_of s, components s))"

text \<open>\<^verbatim>\<open>Path(segment, ...)\<close> and \<^verbatim>\<open>p.as_posix()\<close>.\<close>

definition Path :: "string list \<Rightarrow> path" where
  "Path segments = fold (\<lambda>s p. joinpath p s) segments ([], [])"

fun join_sep :: "string list \<Rightarrow> string" where
  "join_sep [] = []"
| "join_sep [x] = x"
| "join_sep (x # y # xs) = x @ ''/'' @ join_sep (y # xs)"

definition as_posix :: "path \<Rightarrow> string" where
  "as_posix p = (if fst p = [] \<and> snd p = [] then ''.'' else fst p @ join_sep (snd p))"

text \<open>The directory that holds the file a path names.\<close>

definition directory_of :: "path \<Rightarrow> path" where
  "directory_of t = (fst t, butlast (snd t))"

text \<open>\<^verbatim>\<open>open(t, "w")\<close> creates or truncates the file \<open>t\<close>. It raises
  \<^verbatim>\<open>IsADirectoryError\<close> when \<open>t\<close> is a directory, \<^verbatim>\<open>NotADirectoryError\<close> when the
  directory of \<open>t\<close> is a regular file, and \<^verbatim>\<open>FileNotFoundError\<close> when the directory of
  \<open>t\<close> does not exist.\<close>

definition open_w :: "filesystem \<Rightarrow> path \<Rightarrow> error option" where
  "open_w fs t =
     (if directory_of t \<in> dirs fs
      then (if t \<in> dirs fs then Some (IsADirectoryError t) else None)
      else if directory_of t \<in> dom (files fs) then Some (NotADirectoryError t)
      else Some (FileNotFoundError t))"

subsection \<open>The two tasks\<close>

text \<open>A task returns the effects it had in its worker and either the exception it raised
  (\<open>Inl\<close>) or its return value.\<close>

definition build_structured_config ::
  "('v, 'f, 's, 'e) collaborators \<Rightarrow> hostname \<Rightarrow> 'v \<Rightarrow> 'f
    \<Rightarrow> ('v, 'f, 's, 'e) effect list \<times> (error + hostname \<times> 's)" where
  "build_structured_config X hostname inputs avd_facts =
     (let results = validate_inputs X inputs in
      if failed results
      then (Validate_inputs inputs # map Print (validation_errors results),
            Inl (RuntimeError (hostname @ '' validate_inputs failed'')))
      else ([Validate_inputs inputs, Get_device_structured_config hostname inputs avd_facts],
            Inr (hostname, get_device_structured_config X hostname inputs avd_facts)))"

definition build_designed_config ::
  "('v, 'f, 's, 'e) collaborators \<Rightarrow> hostname \<Rightarrow> 's
    \<Rightarrow> ('v, 'f, 's, 'e) effect list \<times> (error + hostname \<times> string)" where
  "build_designed_config X hostname structured_config =
     (let results = validate_structured_config X structured_config in
      if failed results
      then (Validate_structured_config structured_config # map Print (validation_errors results),
            Inl (RuntimeError (hostname @ '' validate_structured_config failed'')))
      else ([Validate_structured_config structured_config, Get_device_config structured_config],
            Inr (hostname, get_device_config X structured_config)))"

text \<open>The records a task printed.\<close>

fun printed :: "('v, 'f, 's, 'e) effect list \<Rightarrow> 'e list" where
  "printed [] = []"
| "printed (Print e # effs) = e # printed effs"
| "printed (_ # effs) = printed effs"

subsection \<open>The pool\<close>

text \<open>
  A future is the host name its task was submitted with, and the task's effects and
  outcome. \<^verbatim>\<open>as_completed\<close> puts the futures in a set, yields those already finished in
  the set's order and the others as they finish, each future once: any order of the
  submitted futures can come out, whatever the number of workers. The order is a
  parameter of the model, a list of choices: each choice picks one of the futures not
  yet yielded; when the choices run out the rest comes in submission order.
\<close>

type_synonym ('v, 'f, 's, 'e, 'r) future =
  "hostname \<times> ('v, 'f, 's, 'e) effect list \<times> (error + hostname \<times> 'r)"

fun as_completed :: "nat list \<Rightarrow> 'a list \<Rightarrow> 'a list" where
  "as_completed cs [] = []"
| "as_completed [] fs = fs"
| "as_completed (c # cs) fs =
     (let i = c mod length fs
      in fs ! i # as_completed cs (take i fs @ drop (Suc i) fs))"

text \<open>\<^verbatim>\<open>ProcessPoolExecutor(max_workers=max_workers)\<close> takes \<^verbatim>\<open>None\<close> (one worker per
  processor) or a number from 1 to 2147483646. It raises \<^verbatim>\<open>ValueError\<close> for a number
  below 1, and \<^verbatim>\<open>OverflowError\<close> for a number above 2147483646, which does not fit the
  C \<^verbatim>\<open>int\<close> of the semaphore that counts the queued calls.\<close>

definition pool_error :: "int option \<Rightarrow> error option" where
  "pool_error max_workers =
     (case max_workers of
        None \<Rightarrow> None
      | Some n \<Rightarrow>
          if n \<le> 0 then Some (ValueError ''max_workers must be greater than 0'')
          else if 2147483647 \<le> n then Some OverflowError
          else None)"

definition pool_ok :: "int option \<Rightarrow> bool" where
  "pool_ok max_workers = (pool_error max_workers = None)"

definition ran :: "stage \<Rightarrow> ('v, 'f, 's, 'e, 'r) future \<Rightarrow> ('v, 'f, 's, 'e) event list" where
  "ran st future = map (Ran st (fst future)) (fst (snd future))"

text \<open>Leaving the \<^verbatim>\<open>with\<close> block shuts the pool down and waits: the tasks whose result
  was not retrieved still run, and their results are dropped.\<close>

definition shutdown :: "stage \<Rightarrow> ('v, 'f, 's, 'e, 'r) future list \<Rightarrow> ('v, 'f, 's, 'e) event list" where
  "shutdown st futures = concat (map (ran st) futures)"

subsection \<open>build\<close>

text \<open>Lines 47 to 52: the host variables of every host but \<^verbatim>\<open>cvp\<close>.\<close>

definition all_hostvars_of :: "('v, 'f, 's, 'e) collaborators \<Rightarrow> string \<Rightarrow> 'v dict" where
  "all_hostvars_of X src =
     fold (\<lambda>hostname all_hostvars.
             if hostname = ''cvp'' then all_hostvars
             else AList.update hostname (get_vars X src hostname) all_hostvars)
          (inventory_hosts X src) []"

text \<open>Lines 64 to 66: the results of stage 1, in the order \<^verbatim>\<open>as_completed\<close> gives.
  The events of a task are recorded where the coordinator retrieves its result.\<close>

fun collect_structured_configs ::
  "('v, 'f, 's, 'e, 's) future list \<Rightarrow> 's dict
    \<Rightarrow> ('v, 'f, 's, 'e) event list \<times> (error + 's dict)" where
  "collect_structured_configs [] structured_configs = ([], Inr structured_configs)"
| "collect_structured_configs (future # futures) structured_configs =
     (case snd (snd future) of
        Inl e \<Rightarrow> (ran Stage1 future @ shutdown Stage1 futures, Inl e)
      | Inr (hostname, structured_config) \<Rightarrow>
          (let (tr, r) = collect_structured_configs futures
                           (AList.update hostname structured_config structured_configs)
           in (ran Stage1 future @ Result1 hostname structured_config # tr, r)))"

text \<open>Lines 75 to 79: each result is written as it is retrieved, to the file
  \<^verbatim>\<open>intended_configs_path / f"{hostname}.cfg"\<close>. An exception of \<^verbatim>\<open>open\<close> leaves the
  loop and the pool.\<close>

fun write_configs ::
  "path \<Rightarrow> ('v, 'f, 's, 'e, string) future list \<Rightarrow> filesystem
    \<Rightarrow> ('v, 'f, 's, 'e) event list \<times> filesystem \<times> (error + unit)" where
  "write_configs intended_configs_path [] fs = ([], fs, Inr ())"
| "write_configs intended_configs_path (future # futures) fs =
     (case snd (snd future) of
        Inl e \<Rightarrow> (ran Stage2 future @ shutdown Stage2 futures, fs, Inl e)
      | Inr (hostname, designed_config) \<Rightarrow>
          (let target = joinpath intended_configs_path (hostname @ ''.cfg'') in
           case open_w fs target of
             Some e \<Rightarrow>
               (ran Stage2 future @ Result2 hostname designed_config # shutdown Stage2 futures,
                fs, Inl e)
           | None \<Rightarrow>
               (let (tr, fs', r) =
                      write_configs intended_configs_path futures
                        (fs\<lparr>files := (files fs)(target \<mapsto> designed_config)\<rparr>)
                in (ran Stage2 future @ Result2 hostname designed_config
                      # Write target designed_config # tr, fs', r))))"

text \<open>\<open>build X sched fs inventory_path intended_configs_path max_workers\<close>: \<open>sched\<close> holds
  the choices of \<^verbatim>\<open>as_completed\<close> for the two stages, \<open>fs\<close> is the file system before
  the run. The result is the trace of the run, the file system after it, and the
  exception that left \<^verbatim>\<open>build\<close> (\<open>Inl\<close>) or its normal return.\<close>

definition build ::
  "('v, 'f, 's, 'e) collaborators \<Rightarrow> nat list \<times> nat list \<Rightarrow> filesystem
    \<Rightarrow> path \<Rightarrow> path \<Rightarrow> int option
    \<Rightarrow> ('v, 'f, 's, 'e) event list \<times> filesystem \<times> (error + unit)" where
  "build X sched fs inventory_path intended_configs_path max_workers =
     (let all_hostvars = all_hostvars_of X (as_posix inventory_path) in
      case pool_error max_workers of
        Some e \<Rightarrow> ([], fs, Inl e)
      | None \<Rightarrow>
        (let avd_facts = get_avd_facts X all_hostvars;
             futures = map (\<lambda>(hostname, hostvars).
                              (hostname, build_structured_config X hostname hostvars avd_facts))
                           all_hostvars;
             submitted = map (\<lambda>(hostname, hostvars). Submit1 hostname hostvars avd_facts)
                             all_hostvars
         in case collect_structured_configs (as_completed (fst sched) futures) [] of
              (tr1, Inl e) \<Rightarrow> (Get_avd_facts all_hostvars # submitted @ tr1, fs, Inl e)
            | (tr1, Inr structured_configs) \<Rightarrow>
                (let futures = map (\<lambda>(hostname, structured_config).
                                      (hostname,
                                       build_designed_config X hostname structured_config))
                                   structured_configs;
                     submitted2 = map (\<lambda>(hostname, structured_config).
                                         Submit2 hostname structured_config)
                                      structured_configs;
                     (tr2, fs', r) = write_configs intended_configs_path
                                       (as_completed (snd sched) futures) fs
                 in (Get_avd_facts all_hostvars # submitted @ tr1 @ submitted2 @ tr2,
                     fs', r))))"

subsection \<open>The command line\<close>

text \<open>How an option occurs on the command line: not at all, without a value, or with
  one: the string of a path, which the option's \<^verbatim>\<open>type\<close> turns into a
  \<^verbatim>\<open>Path\<close>, and the number of \<^verbatim>\<open>-m\<close>, already converted.\<close>

datatype 'a occurrence = Absent | Flag_only | Given 'a

record args =
  inventory_path :: path
  intended_configs_path :: path
  max_workers :: "int option"

text \<open>Lines 83 to 88. A required option that is absent, and an option that needs a
  value and has none, end the program with exit status 2. \<^verbatim>\<open>-m\<close> has
  \<^verbatim>\<open>nargs="?"\<close> and no \<^verbatim>\<open>const\<close>: without a value it gives \<^verbatim>\<open>None\<close>.\<close>

definition parse_args ::
  "string occurrence \<Rightarrow> string occurrence \<Rightarrow> int occurrence \<Rightarrow> error + args" where
  "parse_args i o_opt m =
     (case i of
        Absent \<Rightarrow> Inl (SystemExit 2)
      | Flag_only \<Rightarrow> Inl (SystemExit 2)
      | Given ip \<Rightarrow>
         (case o_opt of
            Flag_only \<Rightarrow> Inl (SystemExit 2)
          | Absent \<Rightarrow>
              Inr \<lparr>inventory_path = Path [ip],
                   intended_configs_path = Path [''intended'', ''configs''],
                   max_workers = (case m of Absent \<Rightarrow> Some 10 | Flag_only \<Rightarrow> None
                                  | Given n \<Rightarrow> Some n)\<rparr>
          | Given op \<Rightarrow>
              Inr \<lparr>inventory_path = Path [ip],
                   intended_configs_path = Path [op],
                   max_workers = (case m of Absent \<Rightarrow> Some 10 | Flag_only \<Rightarrow> None
                                  | Given n \<Rightarrow> Some n)\<rparr>))"

text \<open>A call of \<^verbatim>\<open>build\<close> passes \<^verbatim>\<open>max_workers\<close> or leaves it out; the signature
  (line 43) gives the value of the parameter when it is left out.\<close>

datatype 'a argument = Omitted | Passed 'a

definition build_max_workers :: "int option argument \<Rightarrow> int option" where
  "build_max_workers a = (case a of Omitted \<Rightarrow> Some 10 | Passed m \<Rightarrow> m)"

definition build_call ::
  "('v, 'f, 's, 'e) collaborators \<Rightarrow> nat list \<times> nat list \<Rightarrow> filesystem
    \<Rightarrow> path \<Rightarrow> path \<Rightarrow> int option argument
    \<Rightarrow> ('v, 'f, 's, 'e) event list \<times> filesystem \<times> (error + unit)" where
  "build_call X sched fs ip op a = build X sched fs ip op (build_max_workers a)"

text \<open>Lines 82 to 98.\<close>

definition main ::
  "('v, 'f, 's, 'e) collaborators \<Rightarrow> nat list \<times> nat list \<Rightarrow> filesystem
    \<Rightarrow> string occurrence \<Rightarrow> string occurrence \<Rightarrow> int occurrence
    \<Rightarrow> ('v, 'f, 's, 'e) event list \<times> filesystem \<times> (error + unit)" where
  "main X sched fs i o_opt m =
     (case parse_args i o_opt m of
        Inl e \<Rightarrow> ([], fs, Inl e)
      | Inr a \<Rightarrow> build_call X sched fs (inventory_path a) (intended_configs_path a)
                  (Passed (max_workers a)))"

subsection \<open>Notions used in the statements\<close>

text \<open>The future of each stage, as \<^const>\<open>build\<close> submits it.\<close>

definition stage1_future ::
  "('v, 'f, 's, 'e) collaborators \<Rightarrow> 'f \<Rightarrow> hostname \<times> 'v \<Rightarrow> ('v, 'f, 's, 'e, 's) future" where
  "stage1_future X f =
     (\<lambda>(hostname, hostvars). (hostname, build_structured_config X hostname hostvars f))"

definition stage2_future ::
  "('v, 'f, 's, 'e) collaborators \<Rightarrow> hostname \<times> 's \<Rightarrow> ('v, 'f, 's, 'e, string) future" where
  "stage2_future X =
     (\<lambda>(hostname, structured_config).
        (hostname, build_designed_config X hostname structured_config))"

text \<open>The structured config of a host, the file of a host and what is written to it.\<close>

definition structured_of ::
  "('v, 'f, 's, 'e) collaborators \<Rightarrow> 'f \<Rightarrow> hostname \<times> 'v \<Rightarrow> hostname \<times> 's" where
  "structured_of X f = (\<lambda>(h, v). (h, get_device_structured_config X h v f))"

definition target :: "path \<Rightarrow> hostname \<Rightarrow> path" where
  "target p h = joinpath p (h @ ''.cfg'')"

definition designed_of ::
  "('v, 'f, 's, 'e) collaborators \<Rightarrow> path \<Rightarrow> hostname \<times> 's \<Rightarrow> path \<times> string" where
  "designed_of X p = (\<lambda>(h, sc). (target p h, get_device_config X sc))"

text \<open>The events of a stage in which every task succeeds, for the hosts in the order of
  retrieval.\<close>

definition stage1_trace ::
  "('v, 'f, 's, 'e) collaborators \<Rightarrow> 'f \<Rightarrow> 'v dict \<Rightarrow> ('v, 'f, 's, 'e) event list" where
  "stage1_trace X f hv = concat (map (\<lambda>(h, v).
      [Ran Stage1 h (Validate_inputs v), Ran Stage1 h (Get_device_structured_config h v f),
       Result1 h (get_device_structured_config X h v f)]) hv)"

definition stage2_trace ::
  "('v, 'f, 's, 'e) collaborators \<Rightarrow> path \<Rightarrow> 's dict \<Rightarrow> ('v, 'f, 's, 'e) event list" where
  "stage2_trace X p scs = concat (map (\<lambda>(h, sc).
      [Ran Stage2 h (Validate_structured_config sc), Ran Stage2 h (Get_device_config sc),
       Result2 h (get_device_config X sc), Write (target p h) (get_device_config X sc)]) scs)"

text \<open>The events that the retrieval loop of each stage can record, for tasks submitted
  for the pairs in \<open>S\<close>.\<close>

fun stage1_ok :: "'f \<Rightarrow> (hostname \<times> 'v) set \<Rightarrow> ('v, 'f, 's, 'e) event \<Rightarrow> bool" where
  "stage1_ok f S (Result1 h sc) = True"
| "stage1_ok f S (Ran Stage1 h (Validate_inputs v)) = ((h, v) \<in> S)"
| "stage1_ok f S (Ran Stage1 h (Get_device_structured_config h' v f')) =
     (h' = h \<and> f' = f \<and> (h, v) \<in> S)"
| "stage1_ok f S (Ran Stage1 h (Print e)) = True"
| "stage1_ok f S _ = False"

fun stage2_ok ::
  "('v, 'f, 's, 'e) collaborators \<Rightarrow> path \<Rightarrow> (hostname \<times> 's) set
    \<Rightarrow> ('v, 'f, 's, 'e) event \<Rightarrow> bool" where
  "stage2_ok X p S (Result2 h c) =
     (\<exists>(h', sc) \<in> S. \<not> failed (validate_structured_config X sc) \<and> h = h'
        \<and> c = get_device_config X sc)"
| "stage2_ok X p S (Write t c) =
     (\<exists>(h, sc) \<in> S. \<not> failed (validate_structured_config X sc) \<and> t = target p h
        \<and> c = get_device_config X sc)"
| "stage2_ok X p S (Ran Stage2 h (Validate_structured_config sc)) = ((h, sc) \<in> S)"
| "stage2_ok X p S (Ran Stage2 h (Get_device_config sc)) =
     ((h, sc) \<in> S \<and> \<not> failed (validate_structured_config X sc))"
| "stage2_ok X p S (Ran Stage2 h (Print e)) = True"
| "stage2_ok X p S _ = False"

text \<open>\<^verbatim>\<open>open(t, "w")\<close> succeeds: the directory of \<open>t\<close> exists and \<open>t\<close> is not a
  directory.\<close>

definition can_open :: "filesystem \<Rightarrow> path \<Rightarrow> bool" where
  "can_open fs t = (directory_of t \<in> dirs fs \<and> t \<notin> dirs fs)"

text \<open>A host name without a separator, and an inventory of such names: then the file of
  a host is the name \<^verbatim>\<open><hostname>.cfg\<close> in the directory \<open>intended_configs_path\<close>.\<close>

definition plain :: "hostname \<Rightarrow> bool" where
  "plain h = (CHR ''/'' \<notin> set h)"

definition plain_hosts :: "('v, 'f, 's, 'e) collaborators \<Rightarrow> string \<Rightarrow> bool" where
  "plain_hosts X src = (\<forall>h \<in> set (inventory_hosts X src). plain h)"

text \<open>An event of stage 1: a submission, a task's effect, a retrieved result.\<close>

fun stage1_event :: "('v, 'f, 's, 'e) event \<Rightarrow> bool" where
  "stage1_event (Submit1 _ _ _) = True"
| "stage1_event (Result1 _ _) = True"
| "stage1_event (Ran Stage1 _ _) = True"
| "stage1_event _ = False"

text \<open>The stage 2 submissions and the writes of a trace, in order.\<close>

fun submitted2 :: "('v, 'f, 's, 'e) event list \<Rightarrow> (hostname \<times> 's) list" where
  "submitted2 [] = []"
| "submitted2 (Submit2 h sc # es) = (h, sc) # submitted2 es"
| "submitted2 (_ # es) = submitted2 es"

fun written :: "('v, 'f, 's, 'e) event list \<Rightarrow> (path \<times> string) list" where
  "written [] = []"
| "written (Write t c # es) = (t, c) # written es"
| "written (_ # es) = written es"

text \<open>The invariant of the loop of lines 49 to 52: distinct keys, each with the variables
  of its host.\<close>

definition hostvars_inv :: "(hostname \<Rightarrow> 'v) \<Rightarrow> 'v dict \<Rightarrow> bool" where
  "hostvars_inv g d = (distinct (map fst d) \<and> (\<forall>(h, v) \<in> set d. v = g h))"

text \<open>Every host passes the validation of stage 1, respectively of stage 2.\<close>

definition inputs_valid :: "('v, 'f, 's, 'e) collaborators \<Rightarrow> string \<Rightarrow> bool" where
  "inputs_valid X src =
     (\<forall>(h, v) \<in> set (all_hostvars_of X src). \<not> failed (validate_inputs X v))"

definition structured_valid :: "('v, 'f, 's, 'e) collaborators \<Rightarrow> string \<Rightarrow> bool" where
  "structured_valid X src =
     (\<forall>(h, v) \<in> set (all_hostvars_of X src).
        \<not> failed (validate_structured_config X
             (get_device_structured_config X h v (get_avd_facts X (all_hostvars_of X src)))))"

text \<open>The file of every host can be opened.\<close>

definition writable ::
  "('v, 'f, 's, 'e) collaborators \<Rightarrow> string \<Rightarrow> path \<Rightarrow> filesystem \<Rightarrow> bool" where
  "writable X src p fs = (\<forall>(h, v) \<in> set (all_hostvars_of X src). can_open fs (target p h))"

text \<open>The file of every host with its rendered configuration, in inventory order.\<close>

definition expected_configs ::
  "('v, 'f, 's, 'e) collaborators \<Rightarrow> string \<Rightarrow> path \<Rightarrow> (path \<times> string) list" where
  "expected_configs X src p =
     map (\<lambda>(h, v). (target p h,
            get_device_config X
              (get_device_structured_config X h v (get_avd_facts X (all_hostvars_of X src)))))
         (all_hostvars_of X src)"

text \<open>The structured configs in the order in which stage 2 retrieves them.\<close>

definition retrieved2 ::
  "('v, 'f, 's, 'e) collaborators \<Rightarrow> nat list \<times> nat list \<Rightarrow> string \<Rightarrow> 's dict" where
  "retrieved2 X sched src =
     as_completed (snd sched)
       (map (structured_of X (get_avd_facts X (all_hostvars_of X src)))
          (as_completed (fst sched) (all_hostvars_of X src)))"

subsection \<open>A small fabric\<close>

text \<open>
  Five inventories: \<open>fabric\<close> (two leaves and the controller), \<open>bad-input\<close> (a host
  whose variables are refused), \<open>bad-structured\<close> (a host whose structured config is
  refused), \<open>twins\<close> (two host names with the same file) and any other source (only the
  controller). The variables of a host are its name, the facts are the names of the hosts.
\<close>

definition fabric :: "(string, string list, string, string) collaborators" where
  "fabric =
     \<lparr>inventory_hosts = (\<lambda>src.
          if src = ''fabric'' then [''leaf1'', ''cvp'', ''leaf2'']
          else if src = ''bad-input'' then [''leaf1'', ''spine1'']
          else if src = ''bad-structured'' then [''leaf1'', ''spine2'']
          else if src = ''twins'' then [''leaf1'', ''./leaf1'']
          else [''cvp'']),
      get_vars = (\<lambda>src hostname. hostname),
      validate_inputs = (\<lambda>v.
          \<lparr>failed = (v = ''spine1''),
           validation_errors = (if v = ''spine1'' then [''no id'', ''no type''] else [])\<rparr>),
      get_avd_facts = map fst,
      get_device_structured_config = (\<lambda>hostname v f. ''sc '' @ hostname),
      validate_structured_config = (\<lambda>sc.
          \<lparr>failed = (sc = ''sc spine2''),
           validation_errors = (if sc = ''sc spine2'' then [''no asn''] else [])\<rparr>),
      get_device_config = (\<lambda>sc. ''hostname '' @ drop 3 sc)\<rparr>"

text \<open>The destination \<^verbatim>\<open>out\<close>: an empty directory, absent, a regular file, and a
  directory that holds a directory named \<^verbatim>\<open>leaf1.cfg\<close>.\<close>

definition disk :: filesystem where
  "disk = \<lparr>dirs = {Path [], Path [''out'']}, files = Map.empty\<rparr>"

definition no_disk :: filesystem where
  "no_disk = \<lparr>dirs = {Path []}, files = Map.empty\<rparr>"

definition file_disk :: filesystem where
  "file_disk = \<lparr>dirs = {Path []}, files = [Path [''out''] \<mapsto> ''notes'']\<rparr>"

definition dir_disk :: filesystem where
  "dir_disk = \<lparr>dirs = {Path [], Path [''out''], Path [''out/leaf1.cfg'']}, files = Map.empty\<rparr>"

text \<open>A run of the fabric in which the second host finishes first in stage 1: the events
  up to the first submission of stage 2, and those after it.\<close>

definition fabric_before :: "(string, string list, string, string) event list" where
  "fabric_before =
     [Get_avd_facts [(''leaf1'', ''leaf1''), (''leaf2'', ''leaf2'')],
      Submit1 ''leaf1'' ''leaf1'' [''leaf1'', ''leaf2''],
      Submit1 ''leaf2'' ''leaf2'' [''leaf1'', ''leaf2''],
      Ran Stage1 ''leaf2'' (Validate_inputs ''leaf2''),
      Ran Stage1 ''leaf2'' (Get_device_structured_config ''leaf2'' ''leaf2'' [''leaf1'', ''leaf2'']),
      Result1 ''leaf2'' ''sc leaf2'',
      Ran Stage1 ''leaf1'' (Validate_inputs ''leaf1''),
      Ran Stage1 ''leaf1'' (Get_device_structured_config ''leaf1'' ''leaf1'' [''leaf1'', ''leaf2'']),
      Result1 ''leaf1'' ''sc leaf1'']"

definition fabric_after :: "(string, string list, string, string) event list" where
  "fabric_after =
     [Submit2 ''leaf1'' ''sc leaf1'',
      Ran Stage2 ''leaf2'' (Validate_structured_config ''sc leaf2''),
      Ran Stage2 ''leaf2'' (Get_device_config ''sc leaf2''),
      Result2 ''leaf2'' ''hostname leaf2'', Write (Path [''out/leaf2.cfg'']) ''hostname leaf2'',
      Ran Stage2 ''leaf1'' (Validate_structured_config ''sc leaf1''),
      Ran Stage2 ''leaf1'' (Get_device_config ''sc leaf1''),
      Result2 ''leaf1'' ''hostname leaf1'', Write (Path [''out/leaf1.cfg'']) ''hostname leaf1'']"

definition fabric_disk :: filesystem where
  "fabric_disk =
     \<lparr>dirs = {Path [], Path [''out'']},
      files = [Path [''out/leaf2.cfg''] \<mapsto> ''hostname leaf2'',
               Path [''out/leaf1.cfg''] \<mapsto> ''hostname leaf1'']\<rparr>"

section \<open>Properties\<close>

subsection \<open>The dictionary of host variables\<close>

lemma update_fresh: "k \<notin> fst ` set al \<Longrightarrow> AList.update k v al = al @ [(k, v)]"
  by (induction al) auto

lemma set_update_subset: "set (AList.update k v al) \<subseteq> insert (k, v) (set al)"
  by (induction al) auto

lemma keys_update: "fst ` set (AList.update k v al) = insert k (fst ` set al)"
proof -
  have "set (map fst (AList.update k v al)) = insert k (set (map fst al))"
    by (simp add: update_keys insert_absorb)
  then show ?thesis by simp
qed

lemma hostvars_inv_update: "hostvars_inv g d \<Longrightarrow> hostvars_inv g (AList.update a (g a) d)"
  unfolding hostvars_inv_def using set_update_subset [of a "g a" d]
  by (auto simp: distinct_update)

lemma fold_hostvars_inv:
  fixes g :: "hostname \<Rightarrow> 'v"
  defines "F \<equiv> (\<lambda>hostname all_hostvars.
             if hostname = ''cvp'' then all_hostvars
             else AList.update hostname (g hostname) all_hostvars)"
  shows "hostvars_inv g acc \<Longrightarrow>
     hostvars_inv g (fold F hs acc) \<and> fst ` set (fold F hs acc) = fst ` set acc \<union> (set hs - {''cvp''})"
proof (induction hs arbitrary: acc)
  case Nil
  then show ?case by simp
next
  case (Cons a hs)
  show ?case
  proof (cases "a = ''cvp''")
    case True
    then have "F a acc = acc" by (simp add: F_def)
    with Cons.IH [OF Cons.prems] True show ?thesis by auto
  next
    case False
    then have Fa: "F a acc = AList.update a (g a) acc" by (simp add: F_def)
    have "hostvars_inv g (F a acc)" unfolding Fa using Cons.prems by (rule hostvars_inv_update)
    from Cons.IH [OF this] have "hostvars_inv g (fold F hs (F a acc))" 
      and "fst ` set (fold F hs (F a acc)) = fst ` set (F a acc) \<union> (set hs - {''cvp''})" by simp_all
    moreover have "fst ` set (F a acc) = insert a (fst ` set acc)" unfolding Fa by (rule keys_update)
    ultimately show ?thesis using False by auto
  qed
qed

lemma all_hostvars_inv: "hostvars_inv (get_vars X src) (all_hostvars_of X src)"
  unfolding all_hostvars_of_def using fold_hostvars_inv [of "get_vars X src" "[]" "inventory_hosts X src"]
  by (simp add: hostvars_inv_def)

lemma all_hostvars_distinct: "distinct (map fst (all_hostvars_of X src))"
  using all_hostvars_inv [of X src] by (simp add: hostvars_inv_def)

lemma all_hostvars_keys: "fst ` set (all_hostvars_of X src) = set (inventory_hosts X src) - {''cvp''}"
  unfolding all_hostvars_of_def using fold_hostvars_inv [of "get_vars X src" "[]" "inventory_hosts X src"]
  by (simp add: hostvars_inv_def)

lemma all_hostvars_values: "(h, v) \<in> set (all_hostvars_of X src) \<Longrightarrow> v = get_vars X src h"
  using all_hostvars_inv [of X src] by (auto simp: hostvars_inv_def)

subsection \<open>The order of retrieval\<close>

lemma as_completed_step:
  "fs \<noteq> [] \<Longrightarrow> as_completed (c # cs) fs =
     fs ! (c mod length fs) # as_completed cs (take (c mod length fs) fs @ drop (Suc (c mod length fs)) fs)"
  by (cases fs) (simp_all add: Let_def)

lemma mset_remove_nth: "i < length xs \<Longrightarrow> add_mset (xs ! i) (mset (take i xs @ drop (Suc i) xs)) = mset xs"
proof -
  assume "i < length xs"
  then have "xs = take i xs @ xs ! i # drop (Suc i) xs" by (rule id_take_nth_drop)
  then have "mset xs = mset (take i xs @ xs ! i # drop (Suc i) xs)" by simp
  then show ?thesis by simp
qed

lemma mset_as_completed: "mset (as_completed cs fs) = mset fs"
proof (induction cs arbitrary: fs)
  case Nil
  show ?case by (cases fs) simp_all
next
  case (Cons c cs)
  show ?case
  proof (cases "fs = []")
    case True
    then show ?thesis by simp
  next
    case False
    then have "c mod length fs < length fs" by simp
    then show ?thesis
      by (simp only: as_completed_step [OF False] mset.simps Cons.IH mset_remove_nth)
  qed
qed

lemma as_completed_map: "as_completed cs (map f xs) = map f (as_completed cs xs)"
proof (induction cs arbitrary: xs)
  case Nil
  show ?case by (cases xs) simp_all
next
  case (Cons c cs)
  show ?case
  proof (cases "xs = []")
    case True
    then show ?thesis by simp
  next
    case False
    then have i: "c mod length xs < length xs" by simp
    from False have ne: "map f xs \<noteq> []" by simp
    show ?thesis
      using i by (simp add: as_completed_step [OF False] as_completed_step [OF ne] Cons.IH [symmetric] take_map drop_map)
  qed
qed

lemma set_as_completed: "set (as_completed cs fs) = set fs"
  using mset_as_completed [of cs fs] by (rule mset_eq_setD)

lemma distinct_keys_as_completed:
  "distinct (map fst (as_completed cs d)) = distinct (map fst d)"
proof -
  have "mset (map fst (as_completed cs d)) = mset (map fst d)"
    by (simp add: mset_as_completed)
  then show ?thesis by (rule mset_eq_imp_distinct_iff)
qed

lemma as_completed_Nil_iff: "as_completed cs fs = [] \<longleftrightarrow> fs = []"
  using mset_as_completed [of cs fs] by (metis mset_zero_iff)


subsection \<open>The retrieval loop of stage 1\<close>

lemma ran_stage1_ok:
  "(h, v) \<in> S \<Longrightarrow> e \<in> set (ran Stage1 (stage1_future X f (h, v))) \<Longrightarrow> stage1_ok f S e"
  by (auto simp: ran_def stage1_future_def build_structured_config_def Let_def split: if_splits)

lemma shutdown_stage1_ok:
  "set hv \<subseteq> S \<Longrightarrow> e \<in> set (shutdown Stage1 (map (stage1_future X f) hv)) \<Longrightarrow> stage1_ok f S e"
  unfolding shutdown_def using ran_stage1_ok [of _ _ S e X f] by auto

lemma collect_stage1_ok:
  "set hv \<subseteq> S \<Longrightarrow> e \<in> set (fst (collect_structured_configs (map (stage1_future X f) hv) d))
     \<Longrightarrow> stage1_ok f S e"
proof (induction hv arbitrary: d)
  case Nil
  then show ?case by simp
next
  case (Cons x hv)
  obtain h v where x: "x = (h, v)" by (cases x)
  from Cons.prems(1) x have hvS: "(h, v) \<in> S" and sub: "set hv \<subseteq> S" by auto
  show ?case
  proof (cases "failed (validate_inputs X v)")
    case True
    then have r: "snd (snd (stage1_future X f (h, v))) = Inl (RuntimeError (h @ '' validate_inputs failed''))"
      by (simp add: stage1_future_def build_structured_config_def)
    from Cons.prems(2) have "e \<in> set (ran Stage1 (stage1_future X f (h, v))) \<or> e \<in> set (shutdown Stage1 (map (stage1_future X f) hv))"
      by (simp add: x r)
    then show ?thesis using ran_stage1_ok [OF hvS, of e X f] shutdown_stage1_ok [OF sub, of e X f] by blast
  next
    case False
    then have r: "snd (snd (stage1_future X f (h, v))) = Inr (h, get_device_structured_config X h v f)"
      by (simp add: stage1_future_def build_structured_config_def)
    from Cons.prems(2) have "e \<in> set (ran Stage1 (stage1_future X f (h, v))) \<or> e = Result1 h (get_device_structured_config X h v f)
       \<or> e \<in> set (fst (collect_structured_configs (map (stage1_future X f) hv) (AList.update h (get_device_structured_config X h v f) d)))"
      by (auto simp add: x r split: prod.splits)
    then show ?thesis using ran_stage1_ok [OF hvS, of e X f] Cons.IH [OF sub] by auto
  qed
qed

lemma collect_all_valid:
  "\<forall>(h, v) \<in> set hv. \<not> failed (validate_inputs X v) \<Longrightarrow> distinct (map fst hv) \<Longrightarrow>
   fst ` set hv \<inter> fst ` set d = {} \<Longrightarrow>
   collect_structured_configs (map (stage1_future X f) hv) d =
     (stage1_trace X f hv, Inr (d @ map (structured_of X f) hv))"
proof (induction hv arbitrary: d)
  case Nil
  then show ?case by (simp add: stage1_trace_def)
next
  case (Cons x hv)
  obtain h v where x: "x = (h, v)" by (cases x)
  let ?sc = "get_device_structured_config X h v f"
  from Cons.prems(1) x have ok: "\<not> failed (validate_inputs X v)" by simp
  then have fut: "stage1_future X f (h, v) =
      (h, [Validate_inputs v, Get_device_structured_config h v f], Inr (h, ?sc))"
    by (simp add: stage1_future_def build_structured_config_def)
  from Cons.prems(3) x have fresh: "h \<notin> fst ` set d" by auto
  then have upd: "AList.update h ?sc d = d @ [(h, ?sc)]" by (rule update_fresh)
  have "fst ` set hv \<inter> fst ` set (d @ [(h, ?sc)]) = {}"
    using Cons.prems(2,3) x by auto
  with Cons.IH [of "d @ [(h, ?sc)]"] Cons.prems(1,2)
  have IH: "collect_structured_configs (map (stage1_future X f) hv) (d @ [(h, ?sc)]) =
     (stage1_trace X f hv, Inr ((d @ [(h, ?sc)]) @ map (structured_of X f) hv))" by simp
  show ?case
    by (simp add: x fut upd IH ran_def stage1_trace_def structured_of_def)
qed

lemma collect_some_invalid:
  "(h0, v0) \<in> set hv \<Longrightarrow> failed (validate_inputs X v0) \<Longrightarrow>
   \<exists>h v. (h, v) \<in> set hv \<and> failed (validate_inputs X v) \<and>
     snd (collect_structured_configs (map (stage1_future X f) hv) d) =
       Inl (RuntimeError (h @ '' validate_inputs failed''))"
proof (induction hv arbitrary: d)
  case Nil
  then show ?case by simp
next
  case (Cons x hv)
  obtain h v where x: "x = (h, v)" by (cases x)
  show ?case
  proof (cases "failed (validate_inputs X v)")
    case True
    then have r: "snd (snd (stage1_future X f (h, v))) = Inl (RuntimeError (h @ '' validate_inputs failed''))"
      by (simp add: stage1_future_def build_structured_config_def)
    have "snd (collect_structured_configs (map (stage1_future X f) (x # hv)) d) = Inl (RuntimeError (h @ '' validate_inputs failed''))"
      by (simp add: x r)
    with True x show ?thesis by auto
  next
    case False
    then have r: "snd (snd (stage1_future X f (h, v))) = Inr (h, get_device_structured_config X h v f)"
      by (simp add: stage1_future_def build_structured_config_def)
    from False Cons.prems x have "(h0, v0) \<in> set hv" by auto
    from Cons.IH [OF this Cons.prems(2), of "AList.update h (get_device_structured_config X h v f) d"]
    obtain h' v' where "(h', v') \<in> set hv" "failed (validate_inputs X v')"
      "snd (collect_structured_configs (map (stage1_future X f) hv) (AList.update h (get_device_structured_config X h v f) d)) =
       Inl (RuntimeError (h' @ '' validate_inputs failed''))" by blast
    then show ?thesis by (auto simp add: x r split: prod.splits)
  qed
qed

subsection \<open>Paths and files\<close>

lemma split_sep_plain: "CHR ''/'' \<notin> set s \<Longrightarrow> split_sep s = [s]"
  by (induction s) auto

lemma root_of_plain: "plain h \<Longrightarrow> root_of (h @ ''.cfg'') = []"
  by (cases h) (auto simp add: root_of_def plain_def)

lemma components_plain: "plain h \<Longrightarrow> components (h @ ''.cfg'') = [h @ ''.cfg'']"
proof -
  assume p: "plain h"
  have n: "h @ ''.cfg'' \<noteq> ''.''"
  proof
    assume "h @ ''.cfg'' = ''.''"
    then have "length (h @ ''.cfg'') = length ''.''" by (rule arg_cong)
    then show False by simp
  qed
  from p have "split_sep (h @ ''.cfg'') = [h @ ''.cfg'']"
    by (intro split_sep_plain) (simp add: plain_def)
  with n show ?thesis by (simp add: components_def)
qed

lemma target_plain: "plain h \<Longrightarrow> target p h = (fst p, snd p @ [h @ ''.cfg''])"
  by (simp add: target_def joinpath_def root_of_plain components_plain)

lemma directory_of_target: "plain h \<Longrightarrow> directory_of (target p h) = p"
  by (simp add: target_plain directory_of_def)

lemma target_inj: "plain h \<Longrightarrow> plain h' \<Longrightarrow> target p h = target p h' \<longleftrightarrow> h = h'"
  by (simp add: target_plain)

lemma open_w_None: "open_w fs t = None \<longleftrightarrow> can_open fs t"
  by (simp add: open_w_def can_open_def)

lemma open_w_Some:
  "open_w fs t = Some e \<Longrightarrow>
     \<not> can_open fs t \<and> (e = IsADirectoryError t \<or> e = NotADirectoryError t \<or> e = FileNotFoundError t)"
  by (auto simp: open_w_def can_open_def split: if_splits)

lemma open_w_absent:
  "directory_of t \<notin> dirs fs \<Longrightarrow> directory_of t \<notin> dom (files fs) \<Longrightarrow>
     open_w fs t = Some (FileNotFoundError t)"
  by (simp add: open_w_def)

lemma can_open_files [simp]: "can_open (fs\<lparr>files := m\<rparr>) t = can_open fs t"
  by (simp add: can_open_def)

lemma written_append [simp]: "written (xs @ ys) = written xs @ written ys"
  by (induction xs rule: written.induct) simp_all

lemma written_map_Ran: "written (map (Ran st h) effs) = []"
  by (induction effs) simp_all

lemma written_ran [simp]: "written (ran st fut) = []"
  unfolding ran_def by (rule written_map_Ran)

lemma written_shutdown [simp]: "written (shutdown st futs) = []"
  unfolding shutdown_def by (induction futs) simp_all

lemma written_set: "(t, c) \<in> set (written tr) \<longleftrightarrow> Write t c \<in> set tr"
  by (induction tr rule: written.induct) auto

subsection \<open>The retrieval loop of stage 2\<close>

lemma ran_stage2_ok:
  "(h, sc) \<in> S \<Longrightarrow> e \<in> set (ran Stage2 (stage2_future X (h, sc))) \<Longrightarrow> stage2_ok X p S e"
  by (auto simp: ran_def stage2_future_def build_designed_config_def Let_def split: if_splits)

lemma shutdown_stage2_ok:
  "set scs \<subseteq> S \<Longrightarrow> e \<in> set (shutdown Stage2 (map (stage2_future X) scs)) \<Longrightarrow> stage2_ok X p S e"
  unfolding shutdown_def using ran_stage2_ok [of _ _ S e X p] by auto

lemma write_invalid_step:
  "failed (validate_structured_config X sc) \<Longrightarrow>
   write_configs p (stage2_future X (h, sc) # futs) fs =
     (ran Stage2 (stage2_future X (h, sc)) @ shutdown Stage2 futs, fs,
      Inl (RuntimeError (h @ '' validate_structured_config failed'')))"
  by (simp add: stage2_future_def build_designed_config_def)

lemma write_refused_step:
  "\<not> failed (validate_structured_config X sc) \<Longrightarrow> open_w fs (target p h) = Some e \<Longrightarrow>
   write_configs p (stage2_future X (h, sc) # futs) fs =
     (ran Stage2 (stage2_future X (h, sc)) @ Result2 h (get_device_config X sc) # shutdown Stage2 futs,
      fs, Inl e)"
  by (simp add: stage2_future_def build_designed_config_def target_def)

lemma write_valid_step:
  "\<not> failed (validate_structured_config X sc) \<Longrightarrow> open_w fs (target p h) = None \<Longrightarrow>
   write_configs p futs (fs\<lparr>files := (files fs)(target p h \<mapsto> get_device_config X sc)\<rparr>) = (tr, fs', r) \<Longrightarrow>
   write_configs p (stage2_future X (h, sc) # futs) fs =
     (ran Stage2 (stage2_future X (h, sc)) @ Result2 h (get_device_config X sc)
        # Write (target p h) (get_device_config X sc) # tr, fs', r)"
  by (simp add: stage2_future_def build_designed_config_def target_def)

lemma ran_stage2_valid:
  "\<not> failed (validate_structured_config X sc) \<Longrightarrow>
   ran Stage2 (stage2_future X (h, sc)) =
     [Ran Stage2 h (Validate_structured_config sc), Ran Stage2 h (Get_device_config sc)]"
  by (simp add: ran_def stage2_future_def build_designed_config_def)

text \<open>The loop creates no directory, and the files after it are those before it,
  overwritten by the writes in their order.\<close>

lemma write_files:
  "write_configs p futs fs = (tr, fs', r) \<Longrightarrow>
     fs' = fs\<lparr>files := files fs ++ map_of (rev (written tr))\<rparr>"
proof (induction futs arbitrary: fs tr fs' r)
  case Nil
  then show ?case by simp
next
  case (Cons fut futs)
  show ?case
  proof (cases "snd (snd fut)")
    case (Inl e)
    with Cons.prems show ?thesis by auto
  next
    case (Inr hc)
    obtain h c where hc: "hc = (h, c)" by (cases hc)
    let ?t = "joinpath p (h @ ''.cfg'')"
    show ?thesis
    proof (cases "open_w fs ?t")
      case (Some e)
      with Cons.prems Inr hc show ?thesis by (auto simp: Let_def)
    next
      case None
      let ?fs = "fs\<lparr>files := (files fs)(?t \<mapsto> c)\<rparr>"
      obtain tr0 fs0 r0 where w: "write_configs p futs ?fs = (tr0, fs0, r0)"
        by (cases "write_configs p futs ?fs")
      from Cons.prems Inr hc None w
      have tr: "tr = ran Stage2 fut @ Result2 h c # Write ?t c # tr0" and fs': "fs' = fs0"
        by (simp_all add: Let_def)
      have "fs0 = ?fs\<lparr>files := files ?fs ++ map_of (rev (written tr0))\<rparr>"
        using w by (rule Cons.IH)
      moreover have "(files fs)(?t \<mapsto> c) ++ map_of (rev (written tr0))
          = files fs ++ map_of (rev (written tr))"
        unfolding tr by (simp add: fun_eq_iff map_add_def split: option.splits)
      ultimately show ?thesis unfolding fs' by simp
    qed
  qed
qed

lemma write_dirs:
  "dirs (fst (snd (write_configs p futs fs))) = dirs fs"
proof -
  obtain tr fs' r where w: "write_configs p futs fs = (tr, fs', r)"
    by (cases "write_configs p futs fs")
  from write_files [OF w] show ?thesis by (simp add: w)
qed

text \<open>A file is written only where \<^verbatim>\<open>open\<close> succeeds.\<close>

lemma write_can_open:
  "Write t c \<in> set (fst (write_configs p futs fs)) \<Longrightarrow> can_open fs t"
proof (induction futs arbitrary: fs)
  case Nil
  then show ?case by simp
next
  case (Cons fut futs)
  have nr: "Write t c \<notin> set (ran Stage2 fut)" by (auto simp: ran_def)
  have ns: "Write t c \<notin> set (shutdown Stage2 futs)" by (auto simp: shutdown_def ran_def)
  show ?case
  proof (cases "snd (snd fut)")
    case (Inl e)
    with Cons.prems nr ns show ?thesis by simp
  next
    case (Inr hc)
    obtain h c' where hc: "hc = (h, c')" by (cases hc)
    let ?t = "joinpath p (h @ ''.cfg'')"
    show ?thesis
    proof (cases "open_w fs ?t")
      case (Some e)
      with Cons.prems Inr hc nr ns show ?thesis by (simp add: Let_def)
    next
      case None
      let ?fs = "fs\<lparr>files := (files fs)(?t \<mapsto> c')\<rparr>"
      obtain tr0 fs0 r0 where w: "write_configs p futs ?fs = (tr0, fs0, r0)"
        by (cases "write_configs p futs ?fs")
      from Cons.prems Inr hc None w nr
      have "(t = ?t \<and> c = c') \<or> Write t c \<in> set tr0" by (simp add: Let_def)
      then show ?thesis
      proof
        assume "t = ?t \<and> c = c'"
        with None show ?thesis by (simp add: open_w_None)
      next
        assume "Write t c \<in> set tr0"
        then have "Write t c \<in> set (fst (write_configs p futs ?fs))" by (simp add: w)
        then have "can_open ?fs t" by (rule Cons.IH)
        then show ?thesis by simp
      qed
    qed
  qed
qed

declare write_configs.simps(2) [simp del]

lemma write_stage2_ok:
  "set scs \<subseteq> S \<Longrightarrow> e \<in> set (fst (write_configs p (map (stage2_future X) scs) fs))
     \<Longrightarrow> stage2_ok X p S e"
proof (induction scs arbitrary: fs)
  case Nil
  then show ?case by simp
next
  case (Cons x scs)
  obtain h sc where x: "x = (h, sc)" by (cases x)
  from Cons.prems(1) x have inS: "(h, sc) \<in> S" and sub: "set scs \<subseteq> S" by auto
  note r = ran_stage2_ok [OF inS, of e X p]
  note s = shutdown_stage2_ok [OF sub, of e X p]
  show ?case
  proof (cases "failed (validate_structured_config X sc)")
    case True
    from Cons.prems(2) have "e \<in> set (ran Stage2 (stage2_future X (h, sc))) \<or> e \<in> set (shutdown Stage2 (map (stage2_future X) scs))"
      by (simp add: x write_invalid_step [OF True])
    then show ?thesis using r s by blast
  next
    case False
    have "\<exists>(h', sc') \<in> S. \<not> failed (validate_structured_config X sc') \<and> h = h'
        \<and> get_device_config X sc = get_device_config X sc'"
      using inS False by blast
    then have res: "stage2_ok X p S (Result2 h (get_device_config X sc))" by simp
    show ?thesis
    proof (cases "open_w fs (target p h)")
      case None
      let ?fs = "fs\<lparr>files := (files fs)(target p h \<mapsto> get_device_config X sc)\<rparr>"
      obtain tr fs' res where w: "write_configs p (map (stage2_future X) scs) ?fs = (tr, fs', res)"
        by (cases "write_configs p (map (stage2_future X) scs) ?fs")
      from Cons.prems(2) consider "e \<in> set (ran Stage2 (stage2_future X (h, sc)))"
          | "e = Result2 h (get_device_config X sc)"
          | "e = Write (target p h) (get_device_config X sc)"
          | "e \<in> set tr"
        by (auto simp add: x write_valid_step [OF False None w])
      then show ?thesis
      proof cases
        case 1
        then show ?thesis by (rule r)
      next
        case 2
        then show ?thesis using res by simp
      next
        case 3
        have "\<exists>(h', sc') \<in> S. \<not> failed (validate_structured_config X sc') \<and>
            target p h = target p h' \<and> get_device_config X sc = get_device_config X sc'"
          using inS False by blast
        then show ?thesis unfolding 3 by simp
      next
        case 4
        then show ?thesis using Cons.IH [OF sub, of ?fs] w by simp
      qed
    next
      case (Some err)
      from Cons.prems(2) consider "e \<in> set (ran Stage2 (stage2_future X (h, sc)))"
          | "e = Result2 h (get_device_config X sc)"
          | "e \<in> set (shutdown Stage2 (map (stage2_future X) scs))"
        by (auto simp add: x write_refused_step [OF False Some])
      then show ?thesis
      proof cases
        case 1
        then show ?thesis by (rule r)
      next
        case 2
        then show ?thesis using res by simp
      next
        case 3
        then show ?thesis by (rule s)
      qed
    qed
  qed
qed

lemma write_all_valid:
  "\<forall>(h, sc) \<in> set scs. \<not> failed (validate_structured_config X sc) \<and> can_open fs (target p h) \<Longrightarrow>
   write_configs p (map (stage2_future X) scs) fs =
     (stage2_trace X p scs,
      fs\<lparr>files := files fs ++ map_of (rev (map (designed_of X p) scs))\<rparr>, Inr ())"
proof (induction scs arbitrary: fs)
  case Nil
  then show ?case by (simp add: stage2_trace_def)
next
  case (Cons x scs)
  obtain h sc where x: "x = (h, sc)" by (cases x)
  from Cons.prems(1) x have ok: "\<not> failed (validate_structured_config X sc)"
    and op: "open_w fs (target p h) = None" by (simp_all add: open_w_None)
  let ?c = "get_device_config X sc"
  let ?fs = "fs\<lparr>files := (files fs)(target p h \<mapsto> ?c)\<rparr>"
  let ?M = "map_of (rev (map (designed_of X p) scs))"
  have v: "\<forall>(h, sc) \<in> set scs. \<not> failed (validate_structured_config X sc) \<and> can_open ?fs (target p h)"
    using Cons.prems(1) by simp
  have IH: "write_configs p (map (stage2_future X) scs) ?fs =
     (stage2_trace X p scs, ?fs\<lparr>files := files ?fs ++ ?M\<rparr>, Inr ())"
    using v by (rule Cons.IH)
  have m: "(files fs)(target p h \<mapsto> ?c) ++ ?M
      = files fs ++ map_of (rev (map (designed_of X p) ((h, sc) # scs)))"
    by (simp add: designed_of_def map_add_def fun_eq_iff split: option.splits)
  have fs_eq: "?fs\<lparr>files := files ?fs ++ ?M\<rparr>
      = fs\<lparr>files := files fs ++ map_of (rev (map (designed_of X p) ((h, sc) # scs)))\<rparr>"
    using m by simp
  have tr_eq: "ran Stage2 (stage2_future X (h, sc)) @ Result2 h ?c # Write (target p h) ?c # stage2_trace X p scs
      = stage2_trace X p ((h, sc) # scs)"
    by (simp add: ran_stage2_valid [OF ok] stage2_trace_def)
  have "write_configs p (stage2_future X (h, sc) # map (stage2_future X) scs) fs =
     (stage2_trace X p ((h, sc) # scs),
      fs\<lparr>files := files fs ++ map_of (rev (map (designed_of X p) ((h, sc) # scs)))\<rparr>, Inr ())"
    unfolding write_valid_step [OF ok op IH] fs_eq tr_eq ..
  then show ?case by (simp add: x)
qed

text \<open>The loop returns normally exactly when every structured config is valid and every
  file can be opened. Otherwise it raises the exception of a task or of \<^verbatim>\<open>open\<close>.\<close>

lemma write_fails:
  "(h0, sc0) \<in> set scs \<Longrightarrow>
   failed (validate_structured_config X sc0) \<or> \<not> can_open fs (target p h0) \<Longrightarrow>
   \<exists>e. snd (snd (write_configs p (map (stage2_future X) scs) fs)) = Inl e \<and>
     ((\<exists>(h, sc) \<in> set scs. failed (validate_structured_config X sc)
          \<and> e = RuntimeError (h @ '' validate_structured_config failed''))
      \<or> (\<exists>(h, sc) \<in> set scs. \<not> can_open fs (target p h)
          \<and> (e = IsADirectoryError (target p h) \<or> e = NotADirectoryError (target p h)
               \<or> e = FileNotFoundError (target p h))))"
proof (induction scs arbitrary: fs)
  case Nil
  then show ?case by simp
next
  case (Cons x scs)
  obtain h sc where x: "x = (h, sc)" by (cases x)
  show ?case
  proof (cases "failed (validate_structured_config X sc)")
    case True
    then show ?thesis by (simp add: x write_invalid_step [OF True])
  next
    case False
    show ?thesis
    proof (cases "open_w fs (target p h)")
      case (Some err)
      from open_w_Some [OF Some] show ?thesis
        by (auto simp add: x write_refused_step [OF False Some])
    next
      case None
      then have co: "can_open fs (target p h)" by (simp add: open_w_None)
      let ?fs = "fs\<lparr>files := (files fs)(target p h \<mapsto> get_device_config X sc)\<rparr>"
      from False co Cons.prems x have in0: "(h0, sc0) \<in> set scs" by auto
      from Cons.prems(2)
      have "failed (validate_structured_config X sc0) \<or> \<not> can_open ?fs (target p h0)" by simp
      note IH = Cons.IH [OF in0 this]
      obtain tr fs' res where w: "write_configs p (map (stage2_future X) scs) ?fs = (tr, fs', res)"
        by (cases "write_configs p (map (stage2_future X) scs) ?fs")
      from IH w obtain e where e: "res = Inl e"
        and c: "(\<exists>(h, sc) \<in> set scs. failed (validate_structured_config X sc)
              \<and> e = RuntimeError (h @ '' validate_structured_config failed''))
          \<or> (\<exists>(h, sc) \<in> set scs. \<not> can_open fs (target p h)
              \<and> (e = IsADirectoryError (target p h) \<or> e = NotADirectoryError (target p h)
                   \<or> e = FileNotFoundError (target p h)))"
        by auto
      from c have "(\<exists>(h, sc) \<in> set (x # scs). failed (validate_structured_config X sc)
              \<and> e = RuntimeError (h @ '' validate_structured_config failed''))
          \<or> (\<exists>(h, sc) \<in> set (x # scs). \<not> can_open fs (target p h)
              \<and> (e = IsADirectoryError (target p h) \<or> e = NotADirectoryError (target p h)
                   \<or> e = FileNotFoundError (target p h)))"
        by auto
      then show ?thesis by (simp add: x write_valid_step [OF False None w] e)
    qed
  qed
qed

lemma write_success_iff:
  "snd (snd (write_configs p (map (stage2_future X) scs) fs)) = Inr () \<longleftrightarrow>
     (\<forall>(h, sc) \<in> set scs. \<not> failed (validate_structured_config X sc) \<and> can_open fs (target p h))"
proof
  assume s: "snd (snd (write_configs p (map (stage2_future X) scs) fs)) = Inr ()"
  show "\<forall>(h, sc) \<in> set scs. \<not> failed (validate_structured_config X sc) \<and> can_open fs (target p h)"
  proof (rule ccontr)
    assume "\<not> ?thesis"
    then obtain h0 sc0 where "(h0, sc0) \<in> set scs"
      "failed (validate_structured_config X sc0) \<or> \<not> can_open fs (target p h0)" by auto
    from write_fails [where X = X and p = p and fs = fs, OF this] s show False by auto
  qed
next
  assume "\<forall>(h, sc) \<in> set scs. \<not> failed (validate_structured_config X sc) \<and> can_open fs (target p h)"
  from write_all_valid [OF this] show "snd (snd (write_configs p (map (stage2_future X) scs) fs)) = Inr ()"
    by simp
qed

subsection \<open>The run\<close>



lemma build_pool_error:
  "pool_error mw = Some e \<Longrightarrow> build X sched fs ip p mw = ([], fs, Inl e)"
  by (simp add: build_def)

lemma build_pool_bad:
  "\<not> pool_ok mw \<Longrightarrow> build X sched fs ip p mw = (tr, fs', r) \<Longrightarrow>
     tr = [] \<and> fs' = fs \<and> isl r"
  by (auto simp add: build_def pool_ok_def)

lemma build_unfold:
  "pool_ok mw \<Longrightarrow>
   build X sched fs ip p mw =
    (let hv = all_hostvars_of X (as_posix ip); f = get_avd_facts X hv;
         head = Get_avd_facts hv # map (\<lambda>(h, v). Submit1 h v f) hv
     in case collect_structured_configs (map (stage1_future X f) (as_completed (fst sched) hv)) [] of
          (tr1, Inl e) \<Rightarrow> (head @ tr1, fs, Inl e)
        | (tr1, Inr scs) \<Rightarrow>
            (let (tr2, fs', r) = write_configs p (map (stage2_future X) (as_completed (snd sched) scs)) fs
             in (head @ tr1 @ map (\<lambda>(h, sc). Submit2 h sc) scs @ tr2, fs', r)))"
  by (simp add: build_def pool_ok_def Let_def as_completed_map stage1_future_def stage2_future_def)

lemma split_middle:
  "A @ B @ C = pre @ e # post \<Longrightarrow> e \<notin> set A \<Longrightarrow> e \<notin> set C \<Longrightarrow>
   \<exists>B1 B2. B = B1 @ e # B2 \<and> pre = A @ B1 \<and> post = B2 @ C"
proof (induction A arbitrary: pre)
  case Nil
  then show ?case
  proof (induction B arbitrary: pre)
    case Nil
    then have "e \<in> set C" by (metis append_Nil in_set_conv_decomp)
    with Nil show ?case by simp
  next
    case (Cons b B)
    show ?case
    proof (cases pre)
      case Nil
      with Cons.prems show ?thesis by auto
    next
      case (Cons p pre')
      with Cons.prems(1) have "[] @ B @ C = pre' @ e # post" and pb: "p = b" by auto
      from Cons.IH [OF this(1) Cons.prems(2,3)] obtain B1 B2 where
        "B = B1 @ e # B2" "pre' = [] @ B1" "post = B2 @ C" by blast
      then have "b # B = (b # B1) @ e # B2 \<and> pre = [] @ (b # B1) \<and> post = B2 @ C"
        using Cons pb by simp
      then show ?thesis by blast
    qed
  qed
next
  case (Cons a A)
  show ?case
  proof (cases pre)
    case Nil
    with Cons.prems show ?thesis by auto
  next
    case (Cons p pre')
    with Cons.prems(1) have eq: "A @ B @ C = pre' @ e # post" and pa: "p = a" by auto
    from Cons.prems(2) have "e \<notin> set A" by simp
    from Cons.IH [OF eq this Cons.prems(3)] obtain B1 B2 where
      "B = B1 @ e # B2" "pre' = A @ B1" "post = B2 @ C" by blast
    then have "B = B1 @ e # B2 \<and> pre = (a # A) @ B1 \<and> post = B2 @ C"
      using Cons pa by simp
    then show ?thesis by blast
  qed
qed

lemma build_stage1_fail:
  assumes "pool_ok mw" and "(h0, v0) \<in> set (all_hostvars_of X (as_posix ip))" and "failed (validate_inputs X v0)"
  shows "\<exists>tr1 h v. (h, v) \<in> set (all_hostvars_of X (as_posix ip)) \<and> failed (validate_inputs X v) \<and>
      (\<forall>e \<in> set tr1. stage1_ok (get_avd_facts X (all_hostvars_of X (as_posix ip))) (set (all_hostvars_of X (as_posix ip))) e) \<and>
      build X sched fs ip p mw =
        (Get_avd_facts (all_hostvars_of X (as_posix ip))
           # map (\<lambda>(h, v). Submit1 h v (get_avd_facts X (all_hostvars_of X (as_posix ip)))) (all_hostvars_of X (as_posix ip)) @ tr1,
         fs, Inl (RuntimeError (h @ '' validate_inputs failed'')))"
proof -
  let ?hv = "all_hostvars_of X (as_posix ip)"
  let ?f = "get_avd_facts X ?hv"
  let ?hv' = "as_completed (fst sched) ?hv"
  let ?c = "collect_structured_configs (map (stage1_future X ?f) ?hv') []"
  have s: "set ?hv' = set ?hv" by (rule set_as_completed)
  from assms(2) s have "(h0, v0) \<in> set ?hv'" by simp
  from collect_some_invalid [OF this assms(3), of ?f "[]"]
  obtain h v where hv: "(h, v) \<in> set ?hv'" "failed (validate_inputs X v)"
    and r: "snd ?c = Inl (RuntimeError (h @ '' validate_inputs failed''))" by blast
  have ok: "\<forall>e \<in> set (fst ?c). stage1_ok ?f (set ?hv) e"
    using collect_stage1_ok [of ?hv' "set ?hv" _ X ?f "[]"] s by blast
  have c: "?c = (fst ?c, Inl (RuntimeError (h @ '' validate_inputs failed'')))"
    using r by (metis prod.collapse)
  have "build X sched fs ip p mw =
        (Get_avd_facts ?hv # map (\<lambda>(h, v). Submit1 h v ?f) ?hv @ fst ?c,
         fs, Inl (RuntimeError (h @ '' validate_inputs failed'')))"
    unfolding build_unfold [OF assms(1)] Let_def by (subst c) simp
  with hv s ok show ?thesis by blast
qed

lemma build_stage1_pass:
  assumes "pool_ok mw" and "\<forall>(h, v) \<in> set (all_hostvars_of X (as_posix ip)). \<not> failed (validate_inputs X v)"
    and "write_configs p (map (stage2_future X) (as_completed (snd sched)
           (map (structured_of X (get_avd_facts X (all_hostvars_of X (as_posix ip))))
              (as_completed (fst sched) (all_hostvars_of X (as_posix ip)))))) fs = (tr2, fs', r)"
  shows "build X sched fs ip p mw =
        (Get_avd_facts (all_hostvars_of X (as_posix ip))
           # map (\<lambda>(h, v). Submit1 h v (get_avd_facts X (all_hostvars_of X (as_posix ip)))) (all_hostvars_of X (as_posix ip))
           @ stage1_trace X (get_avd_facts X (all_hostvars_of X (as_posix ip))) (as_completed (fst sched) (all_hostvars_of X (as_posix ip)))
           @ map (\<lambda>(h, sc). Submit2 h sc)
               (map (structured_of X (get_avd_facts X (all_hostvars_of X (as_posix ip))))
                  (as_completed (fst sched) (all_hostvars_of X (as_posix ip))))
           @ tr2, fs', r)"
proof -
  let ?hv = "all_hostvars_of X (as_posix ip)"
  let ?f = "get_avd_facts X ?hv"
  let ?hv' = "as_completed (fst sched) ?hv"
  have s: "set ?hv' = set ?hv" by (rule set_as_completed)
  have d: "distinct (map fst ?hv')" by (simp add: distinct_keys_as_completed all_hostvars_distinct)
  have v: "\<forall>(h, v) \<in> set ?hv'. \<not> failed (validate_inputs X v)" using assms(2) s by simp
  have c: "collect_structured_configs (map (stage1_future X ?f) ?hv') [] =
     (stage1_trace X ?f ?hv', Inr (map (structured_of X ?f) ?hv'))"
    using collect_all_valid [OF v d, of "[]" ?f] by simp
  show ?thesis
    unfolding build_unfold [OF assms(1)] Let_def c using assms(3) by simp
qed

subsection \<open>Traces\<close>

lemma stage1_trace_ok:
  "set hv \<subseteq> S \<Longrightarrow> e \<in> set (stage1_trace X f hv) \<Longrightarrow> stage1_ok f S e"
  by (auto simp: stage1_trace_def)

lemma stage1_trace_results:
  "(h, v) \<in> set hv \<Longrightarrow> Result1 h (get_device_structured_config X h v f) \<in> set (stage1_trace X f hv)"
  by (force simp: stage1_trace_def)

lemma submitted2_append: "submitted2 (xs @ ys) = submitted2 xs @ submitted2 ys"
  by (induction xs rule: submitted2.induct) simp_all


lemma written_Submit2: "written (map (\<lambda>(h, sc). Submit2 h sc) scs) = []"
  by (induction scs) auto

lemma submitted2_Submit1: "submitted2 (map (\<lambda>(h, v). Submit1 h v f) hv) = []"
  by (induction hv) auto

lemma written_Submit1: "written (map (\<lambda>(h, v). Submit1 h v f) hv) = []"
  by (induction hv) auto

lemma stage1_ok_extract:
  "\<forall>e \<in> set tr. stage1_ok f S e \<Longrightarrow> submitted2 tr = [] \<and> written tr = []"
proof (induction tr)
  case Nil
  then show ?case by simp
next
  case (Cons e tr)
  then have "stage1_ok f S e" and IH: "submitted2 tr = [] \<and> written tr = []" by simp_all
  then show ?case by (cases "(f, S, e)" rule: stage1_ok.cases) simp_all
qed


lemma submitted2_set: "(h, sc) \<in> set (submitted2 tr) \<longleftrightarrow> Submit2 h sc \<in> set tr"
  by (induction tr rule: submitted2.induct) auto

lemma stage1_ok_not_stage2: "stage1_ok f S e \<Longrightarrow> stage1_event e"
  by (cases "(f, S, e)" rule: stage1_ok.cases) simp_all

lemma stage2_ok_not_stage1: "stage2_ok X p S e \<Longrightarrow> \<not> stage1_event e"
  by (cases "(X, p, S, e)" rule: stage2_ok.cases) simp_all

lemma build_shape:
  assumes "pool_ok mw" and "build X sched fs ip p mw = (tr, fs', r)"
  shows "\<exists>tr1 scs tr2.
     tr = Get_avd_facts (all_hostvars_of X (as_posix ip))
          # map (\<lambda>(h, v). Submit1 h v (get_avd_facts X (all_hostvars_of X (as_posix ip)))) (all_hostvars_of X (as_posix ip))
          @ tr1 @ map (\<lambda>(h, sc). Submit2 h sc) scs @ tr2
     \<and> (\<forall>e \<in> set tr1. stage1_ok (get_avd_facts X (all_hostvars_of X (as_posix ip))) (set (all_hostvars_of X (as_posix ip))) e)
     \<and> (\<forall>e \<in> set tr2. stage2_ok X p (set scs) e)
     \<and> (scs \<noteq> [] \<longrightarrow>
          tr1 = stage1_trace X (get_avd_facts X (all_hostvars_of X (as_posix ip))) (as_completed (fst sched) (all_hostvars_of X (as_posix ip)))
          \<and> scs = map (structured_of X (get_avd_facts X (all_hostvars_of X (as_posix ip))))
                    (as_completed (fst sched) (all_hostvars_of X (as_posix ip))))"
proof -
  let ?hv = "all_hostvars_of X (as_posix ip)"
  let ?f = "get_avd_facts X ?hv"
  let ?hv' = "as_completed (fst sched) ?hv"
  let ?scs = "map (structured_of X ?f) ?hv'"
  show ?thesis
  proof (cases "\<forall>(h, v) \<in> set ?hv. \<not> failed (validate_inputs X v)")
    case True
    let ?w = "write_configs p (map (stage2_future X) (as_completed (snd sched) ?scs)) fs"
    obtain tr2 fs2 r2 where w: "?w = (tr2, fs2, r2)" by (cases ?w)
    from build_stage1_pass [OF assms(1) True w] assms(2)
    have tr: "tr = Get_avd_facts ?hv # map (\<lambda>(h, v). Submit1 h v ?f) ?hv
           @ stage1_trace X ?f ?hv' @ map (\<lambda>(h, sc). Submit2 h sc) ?scs @ tr2" by simp
    have s: "set ?hv' = set ?hv" by (rule set_as_completed)
    have ok1: "\<forall>e \<in> set (stage1_trace X ?f ?hv'). stage1_ok ?f (set ?hv) e"
      using stage1_trace_ok [of ?hv' "set ?hv" _ X ?f] s by blast
    have "set (as_completed (snd sched) ?scs) \<subseteq> set ?scs" by (simp add: set_as_completed)
    from write_stage2_ok [OF this, of _ p X fs] w
    have ok2: "\<forall>e \<in> set tr2. stage2_ok X p (set ?scs) e" by simp
    from tr ok1 ok2 show ?thesis by blast
  next
    case False
    then obtain h0 v0 where "(h0, v0) \<in> set ?hv" "failed (validate_inputs X v0)" by auto
    from build_stage1_fail [OF assms(1) this, of sched fs p] assms(2)
    obtain tr1 where ok1: "\<forall>e \<in> set tr1. stage1_ok ?f (set ?hv) e"
      and tr: "tr = Get_avd_facts ?hv # map (\<lambda>(h, v). Submit1 h v ?f) ?hv @ tr1" by auto
    have "tr = Get_avd_facts ?hv # map (\<lambda>(h, v). Submit1 h v ?f) ?hv @ tr1
             @ map (\<lambda>(h, sc). Submit2 h sc) [] @ []" using tr by simp
    moreover have "\<forall>e \<in> set []. stage2_ok X p (set []) e" by simp
    ultimately show ?thesis using ok1 by blast
  qed
qed

lemma all_hostvars_empty:
  "set (inventory_hosts X src) \<subseteq> {''cvp''} \<Longrightarrow> all_hostvars_of X src = []"
proof -
  assume "set (inventory_hosts X src) \<subseteq> {''cvp''}"
  then have "fst ` set (all_hostvars_of X src) = {}" unfolding all_hostvars_keys by auto
  then show ?thesis by simp
qed

lemma Submit1_in_map:
  "Submit1 h v f' \<in> set (map (\<lambda>(h, v). Submit1 h v f) hv) \<longleftrightarrow> f' = f \<and> (h, v) \<in> set hv"
  by auto

lemma Submit2_in_map:
  "Submit2 h sc \<in> set (map (\<lambda>(h, sc). Submit2 h sc) scs) \<longleftrightarrow> (h, sc) \<in> set scs"
  by auto

lemma Submit1_not_ok1: "stage1_ok f S e \<Longrightarrow> e \<noteq> Submit1 h v f'"
  by auto

lemma Submit1_not_ok2: "stage2_ok X p S e \<Longrightarrow> e \<noteq> Submit1 h v f'"
  by auto

lemma Submit2_not_ok1: "stage1_ok f S e \<Longrightarrow> e \<noteq> Submit2 h sc"
  by auto

lemma Submit2_not_ok2: "stage2_ok X p S e \<Longrightarrow> e \<noteq> Submit2 h sc"
  by auto

lemma facts_not_ok1: "stage1_ok f S e \<Longrightarrow> e \<noteq> Get_avd_facts d"
  by auto

lemma facts_not_ok2: "stage2_ok X p S e \<Longrightarrow> e \<noteq> Get_avd_facts d"
  by auto

lemma gen_ok1: "stage1_ok f S (Ran st hn (Get_device_structured_config h v f')) \<Longrightarrow> f' = f"
  by (cases st) auto

lemma gen_not_ok2: "stage2_ok X p S e \<Longrightarrow> e \<noteq> Ran st hn (Get_device_structured_config h v f')"
  by (cases st) auto


lemma Submit2_image: "Submit2 h sc \<in> (\<lambda>(h, sc). Submit2 h sc) ` S \<longleftrightarrow> (h, sc) \<in> S"
  by auto

lemma only_Submit2: "e \<in> set (map (\<lambda>(h, sc). Submit2 h sc) scs) \<Longrightarrow> \<not> stage1_event e"
  by auto

subsection \<open>Outcome of a run\<close>

lemma set_retrieved2:
  "set (retrieved2 X sched src)
     = structured_of X (get_avd_facts X (all_hostvars_of X src)) ` set (all_hostvars_of X src)"
  by (simp add: retrieved2_def set_as_completed)

lemma mset_map_as_completed: "mset (map g (as_completed cs xs)) = mset (map g xs)"
  by (simp add: mset_as_completed)

lemma keys_retrieved2:
  "mset (map fst (retrieved2 X sched src)) = mset (map fst (all_hostvars_of X src))"
proof -
  let ?f = "get_avd_facts X (all_hostvars_of X src)"
  let ?hv' = "as_completed (fst sched) (all_hostvars_of X src)"
  have k: "map fst (map (structured_of X ?f) ?hv') = map fst ?hv'"
    by (simp add: structured_of_def split_beta)
  have "mset (map fst (retrieved2 X sched src)) = mset (map fst (map (structured_of X ?f) ?hv'))"
    unfolding retrieved2_def by (rule mset_map_as_completed)
  also have "\<dots> = mset (map fst ?hv')" by (simp only: k)
  also have "\<dots> = mset (map fst (all_hostvars_of X src))" by (rule mset_map_as_completed)
  finally show ?thesis .
qed

lemma distinct_retrieved2: "distinct (map fst (retrieved2 X sched src))"
  using keys_retrieved2 [of X sched src] all_hostvars_distinct [of X src]
  by (metis mset_eq_imp_distinct_iff)

lemma retrieved2_Nil: "retrieved2 X sched src = [] \<longleftrightarrow> all_hostvars_of X src = []"
  by (simp add: retrieved2_def as_completed_Nil_iff)


lemma retrieved2_member:
  "(h, sc) \<in> set (retrieved2 X sched src) \<longleftrightarrow>
     (h, get_vars X src h) \<in> set (all_hostvars_of X src)
     \<and> sc = get_device_structured_config X h (get_vars X src h)
              (get_avd_facts X (all_hostvars_of X src))"
  by (auto simp: set_retrieved2 structured_of_def dest: all_hostvars_values)

lemma build_inputs_invalid:
  assumes "pool_ok mw" and "build X sched fs ip p mw = (tr, fs', r)" and "\<not> inputs_valid X (as_posix ip)"
  shows "(\<exists>h v. (h, v) \<in> set (all_hostvars_of X (as_posix ip)) \<and> failed (validate_inputs X v)
            \<and> r = Inl (RuntimeError (h @ '' validate_inputs failed'')))
     \<and> fs' = fs
     \<and> (\<exists>tr1. tr = Get_avd_facts (all_hostvars_of X (as_posix ip))
              # map (\<lambda>(h, v). Submit1 h v (get_avd_facts X (all_hostvars_of X (as_posix ip)))) (all_hostvars_of X (as_posix ip))
              @ tr1
           \<and> (\<forall>e \<in> set tr1. stage1_ok (get_avd_facts X (all_hostvars_of X (as_posix ip)))
                  (set (all_hostvars_of X (as_posix ip))) e))"
proof -
  from assms(3) obtain h0 v0 where "(h0, v0) \<in> set (all_hostvars_of X (as_posix ip))"
    "failed (validate_inputs X v0)" by (auto simp: inputs_valid_def)
  from build_stage1_fail [OF assms(1) this, of sched fs p] assms(2)
  show ?thesis by auto
qed

lemma build_inputs_valid:
  assumes "pool_ok mw" and "build X sched fs ip p mw = (tr, fs', r)" and "inputs_valid X (as_posix ip)"
  shows "\<exists>tr2. write_configs p (map (stage2_future X) (retrieved2 X sched (as_posix ip))) fs = (tr2, fs', r)
     \<and> tr = Get_avd_facts (all_hostvars_of X (as_posix ip))
           # map (\<lambda>(h, v). Submit1 h v (get_avd_facts X (all_hostvars_of X (as_posix ip)))) (all_hostvars_of X (as_posix ip))
           @ stage1_trace X (get_avd_facts X (all_hostvars_of X (as_posix ip))) (as_completed (fst sched) (all_hostvars_of X (as_posix ip)))
           @ map (\<lambda>(h, sc). Submit2 h sc)
               (map (structured_of X (get_avd_facts X (all_hostvars_of X (as_posix ip))))
                  (as_completed (fst sched) (all_hostvars_of X (as_posix ip))))
           @ tr2"
proof -
  let ?w = "write_configs p (map (stage2_future X) (retrieved2 X sched (as_posix ip))) fs"
  obtain tr2 fs2 r2 where w: "?w = (tr2, fs2, r2)" by (cases ?w)
  from assms(3) have v: "\<forall>(h, v) \<in> set (all_hostvars_of X (as_posix ip)). \<not> failed (validate_inputs X v)"
    by (simp add: inputs_valid_def)
  from build_stage1_pass [OF assms(1) v w [unfolded retrieved2_def]] assms(2) w
  show ?thesis by simp
qed

lemma in_trace_cases:
  "e \<in> set (Get_avd_facts d # map (\<lambda>(h, v). Submit1 h v f) hv @ tr1
            @ map (\<lambda>(h, sc). Submit2 h sc) scs @ tr2) \<Longrightarrow>
   e = Get_avd_facts d \<or> (\<exists>h v. e = Submit1 h v f \<and> (h, v) \<in> set hv) \<or> e \<in> set tr1
   \<or> (\<exists>h sc. e = Submit2 h sc \<and> (h, sc) \<in> set scs) \<or> e \<in> set tr2"
  by auto

lemma written_head:
  "written (Get_avd_facts d # map (\<lambda>(h, v). Submit1 h v f) hv @ tr1) = written tr1"
  by (simp add: written_append written_Submit1)

lemma submitted2_head:
  "submitted2 (Get_avd_facts d # map (\<lambda>(h, v). Submit1 h v f) hv @ tr1) = submitted2 tr1"
  by (simp add: submitted2_append submitted2_Submit1)

lemma render_not_ok1: "\<not> stage1_ok f S (Ran st hn (Get_device_config sc))"
  by (cases st) simp_all

lemma result2_not_ok1: "\<not> stage1_ok f S (Result2 h c)"
  by simp


lemma write_ok2:
  "stage2_ok X p S (Write t c) \<Longrightarrow>
   \<exists>h sc. (h, sc) \<in> S \<and> \<not> failed (validate_structured_config X sc) \<and> t = target p h
     \<and> c = get_device_config X sc"
  by auto


text \<open>What a run with a pool does, by the outcome of stage 1.\<close>

lemma build_stage1_failed:
  assumes "pool_ok mw" and "build X sched fs ip p mw = (tr, fs', r)" and "\<not> inputs_valid X (as_posix ip)"
  shows "(\<exists>h v. (h, v) \<in> set (all_hostvars_of X (as_posix ip)) \<and> failed (validate_inputs X v)
            \<and> r = Inl (RuntimeError (h @ '' validate_inputs failed'')))
     \<and> fs' = fs \<and> written tr = [] \<and> submitted2 tr = []
     \<and> (\<forall>st hn sc. Ran st hn (Get_device_config sc) \<notin> set tr)
     \<and> (\<forall>h c. Result2 h c \<notin> set tr)"
proof -
  let ?hv = "all_hostvars_of X (as_posix ip)"
  let ?f = "get_avd_facts X ?hv"
  from build_inputs_invalid [OF assms] obtain tr1 where
    r: "\<exists>h v. (h, v) \<in> set ?hv \<and> failed (validate_inputs X v)
            \<and> r = Inl (RuntimeError (h @ '' validate_inputs failed''))"
    and fs': "fs' = fs"
    and tr: "tr = Get_avd_facts ?hv # map (\<lambda>(h, v). Submit1 h v ?f) ?hv @ tr1"
    and ok1: "\<forall>e \<in> set tr1. stage1_ok ?f (set ?hv) e" by blast
  from ok1 have ex: "submitted2 tr1 = [] \<and> written tr1 = []" by (rule stage1_ok_extract)
  have w: "written tr = []" unfolding tr using ex by (simp only: written_head)
  have s: "submitted2 tr = []" unfolding tr using ex by (simp only: submitted2_head)
  have n: "Ran st hn (Get_device_config sc) \<notin> set tr" for st hn sc
  proof
    assume "Ran st hn (Get_device_config sc) \<in> set tr"
    then have "Ran st hn (Get_device_config sc) \<in> set tr1" unfolding tr by auto
    with ok1 show False by (auto dest!: bspec simp: render_not_ok1)
  qed
  have n2: "Result2 h c \<notin> set tr" for h c
  proof
    assume "Result2 h c \<in> set tr"
    then have "Result2 h c \<in> set tr1" unfolding tr by auto
    with ok1 show False by (auto dest!: bspec)
  qed
  from r fs' w s n n2 show ?thesis by (intro conjI allI)
qed

lemma build_stage1_passed:
  assumes "pool_ok mw" and "build X sched fs ip p mw = (tr, fs', r)" and "inputs_valid X (as_posix ip)"
  shows "\<exists>tr2. write_configs p (map (stage2_future X) (retrieved2 X sched (as_posix ip))) fs = (tr2, fs', r)
     \<and> written tr = written tr2
     \<and> (\<forall>st hn sc. Ran st hn (Get_device_config sc) \<in> set tr \<longrightarrow>
           Ran st hn (Get_device_config sc) \<in> set tr2)
     \<and> (\<forall>h c. Result2 h c \<in> set tr \<longrightarrow> Result2 h c \<in> set tr2)"
proof -
  let ?hv = "all_hostvars_of X (as_posix ip)"
  let ?f = "get_avd_facts X ?hv"
  let ?hv' = "as_completed (fst sched) ?hv"
  let ?scs = "map (structured_of X ?f) ?hv'"
  from build_inputs_valid [OF assms] obtain tr2 where
    w: "write_configs p (map (stage2_future X) (retrieved2 X sched (as_posix ip))) fs = (tr2, fs', r)"
    and tr: "tr = Get_avd_facts ?hv # map (\<lambda>(h, v). Submit1 h v ?f) ?hv
           @ stage1_trace X ?f ?hv' @ map (\<lambda>(h, sc). Submit2 h sc) ?scs @ tr2" by blast
  have s: "set ?hv' = set ?hv" by (rule set_as_completed)
  have ok1: "\<forall>e \<in> set (stage1_trace X ?f ?hv'). stage1_ok ?f (set ?hv) e"
    using stage1_trace_ok [of ?hv' "set ?hv" _ X ?f] s by blast
  then have w1: "written (stage1_trace X ?f ?hv') = []"
    by (rule stage1_ok_extract [THEN conjunct2])
  have wtr: "written tr = written tr2"
    unfolding tr by (simp add: written_append written_Submit1 written_Submit2 w1 del: map_map)
  have n: "Ran st hn (Get_device_config sc) \<in> set tr2"
    if "Ran st hn (Get_device_config sc) \<in> set tr" for st hn sc
  proof -
    from that [unfolded tr] in_trace_cases [of "Ran st hn (Get_device_config sc)" ?hv ?f ?hv
        "stage1_trace X ?f ?hv'" ?scs tr2]
    have "Ran st hn (Get_device_config sc) \<in> set (stage1_trace X ?f ?hv')
        \<or> Ran st hn (Get_device_config sc) \<in> set tr2" by simp
    moreover have "Ran st hn (Get_device_config sc) \<notin> set (stage1_trace X ?f ?hv')"
    proof
      assume "Ran st hn (Get_device_config sc) \<in> set (stage1_trace X ?f ?hv')"
      with ok1 show False by (auto dest!: bspec simp: render_not_ok1)
    qed
    ultimately show ?thesis by simp
  qed
  have n2: "Result2 h c \<in> set tr2" if "Result2 h c \<in> set tr" for h c
  proof -
    from that [unfolded tr] in_trace_cases [of "Result2 h c" ?hv ?f ?hv
        "stage1_trace X ?f ?hv'" ?scs tr2]
    have "Result2 h c \<in> set (stage1_trace X ?f ?hv') \<or> Result2 h c \<in> set tr2" by simp
    moreover have "Result2 h c \<notin> set (stage1_trace X ?f ?hv')"
    proof
      assume "Result2 h c \<in> set (stage1_trace X ?f ?hv')"
      with ok1 show False by (auto dest!: bspec)
    qed
    ultimately show ?thesis by simp
  qed
  from w wtr n n2 show ?thesis by blast
qed

lemma retrieved2_all:
  "(\<forall>(h, sc) \<in> set (retrieved2 X sched src).
       \<not> failed (validate_structured_config X sc) \<and> can_open fs (target p h))
     \<longleftrightarrow> structured_valid X src \<and> writable X src p fs"
  by (auto simp: structured_valid_def writable_def set_retrieved2 structured_of_def)

text \<open>A run returns normally exactly when the pool is created, every host passes both
  validations and the file of every host can be opened.\<close>

lemma build_success_iff:
  assumes "build X sched fs ip p mw = (tr, fs', r)"
  shows "r = Inr () \<longleftrightarrow>
     pool_ok mw \<and> inputs_valid X (as_posix ip) \<and> structured_valid X (as_posix ip) \<and> writable X (as_posix ip) p fs"
proof (cases "pool_ok mw")
  case False
  from build_pool_bad [OF False assms] have "r \<noteq> Inr ()" by auto
  with False show ?thesis by simp
next
  case pool: True
  show ?thesis
  proof (cases "inputs_valid X (as_posix ip)")
    case False
    from build_inputs_invalid [OF pool assms False] have "r \<noteq> Inr ()" by auto
    with False show ?thesis by simp
  next
    case True
    from build_inputs_valid [OF pool assms True] obtain tr2 where
      w: "write_configs p (map (stage2_future X) (retrieved2 X sched (as_posix ip))) fs = (tr2, fs', r)" by blast
    have "r = snd (snd (write_configs p (map (stage2_future X) (retrieved2 X sched (as_posix ip))) fs))"
      by (simp add: w)
    then have "r = Inr () \<longleftrightarrow> structured_valid X (as_posix ip) \<and> writable X (as_posix ip) p fs"
      by (simp only: write_success_iff retrieved2_all)
    with pool True show ?thesis by simp
  qed
qed

text \<open>The files after a run are those before it, overwritten by the writes of the run in
  their order; no directory is created or removed.\<close>

lemma build_files:
  assumes "build X sched fs ip p mw = (tr, fs', r)"
  shows "fs' = fs\<lparr>files := files fs ++ map_of (rev (written tr))\<rparr>"
proof (cases "pool_ok mw")
  case False
  from build_pool_bad [OF False assms] show ?thesis by simp
next
  case pool: True
  show ?thesis
  proof (cases "inputs_valid X (as_posix ip)")
    case False
    from build_stage1_failed [OF pool assms False] have "fs' = fs" and "written tr = []"
      by simp_all
    then show ?thesis by simp
  next
    case True
    from build_stage1_passed [OF pool assms True] obtain tr2 where
      w: "write_configs p (map (stage2_future X) (retrieved2 X sched (as_posix ip))) fs = (tr2, fs', r)"
      and wtr: "written tr = written tr2" by blast
    from write_files [OF w] show ?thesis by (simp only: wtr)
  qed
qed

text \<open>A file is written for a host whose structured config is valid, with the rendered
  config of that host, where \<^verbatim>\<open>open\<close> succeeds.\<close>

lemma build_write_char:
  assumes "build X sched fs ip p mw = (tr, fs', r)" and "Write t c \<in> set tr"
  shows "(\<exists>h. (h, get_vars X (as_posix ip) h) \<in> set (all_hostvars_of X (as_posix ip)) \<and> t = target p h
     \<and> c = get_device_config X
           (get_device_structured_config X h (get_vars X (as_posix ip) h) (get_avd_facts X (all_hostvars_of X (as_posix ip))))
     \<and> \<not> failed (validate_structured_config X
           (get_device_structured_config X h (get_vars X (as_posix ip) h) (get_avd_facts X (all_hostvars_of X (as_posix ip))))))
     \<and> can_open fs t \<and> pool_ok mw \<and> inputs_valid X (as_posix ip)"
proof -
  have pool: "pool_ok mw"
  proof (rule ccontr)
    assume "\<not> pool_ok mw"
    from build_pool_bad [OF this assms(1)] assms(2) show False by simp
  qed
  have iv: "inputs_valid X (as_posix ip)"
  proof (rule ccontr)
    assume "\<not> inputs_valid X (as_posix ip)"
    from build_stage1_failed [OF pool assms(1) this] have "written tr = []" by simp
    with written_set [of t c tr] assms(2) show False by simp
  qed
  from build_stage1_passed [OF pool assms(1) iv] obtain tr2 where
    w: "write_configs p (map (stage2_future X) (retrieved2 X sched (as_posix ip))) fs = (tr2, fs', r)"
    and wtr: "written tr = written tr2" by blast
  from assms(2) have "Write t c \<in> set tr2"
    using written_set [of t c tr] written_set [of t c tr2] wtr by simp
  then have in_w: "Write t c \<in> set (fst (write_configs p (map (stage2_future X) (retrieved2 X sched (as_posix ip))) fs))"
    by (simp add: w)
  from write_stage2_ok [OF subset_refl in_w] have "stage2_ok X p (set (retrieved2 X sched (as_posix ip))) (Write t c)" .
  from write_ok2 [OF this] obtain h sc where m: "(h, sc) \<in> set (retrieved2 X sched (as_posix ip))"
    and nf: "\<not> failed (validate_structured_config X sc)" and t: "t = target p h"
    and c: "c = get_device_config X sc" by blast
  from m have "(h, get_vars X (as_posix ip) h) \<in> set (all_hostvars_of X (as_posix ip))"
    and "sc = get_device_structured_config X h (get_vars X (as_posix ip) h) (get_avd_facts X (all_hostvars_of X (as_posix ip)))"
    by (simp_all add: retrieved2_member)
  with nf t c have "\<exists>h. (h, get_vars X (as_posix ip) h) \<in> set (all_hostvars_of X (as_posix ip)) \<and> t = target p h
     \<and> c = get_device_config X
           (get_device_structured_config X h (get_vars X (as_posix ip) h) (get_avd_facts X (all_hostvars_of X (as_posix ip))))
     \<and> \<not> failed (validate_structured_config X
           (get_device_structured_config X h (get_vars X (as_posix ip) h) (get_avd_facts X (all_hostvars_of X (as_posix ip)))))"
    by blast
  moreover from in_w have "can_open fs t" by (rule write_can_open)
  ultimately show ?thesis using pool iv by simp
qed

text \<open>The writes of a run that returns normally: the file of every host, with the
  rendered config of the host, in the order of retrieval.\<close>

lemma written_stage2_trace: "written (stage2_trace X p scs) = map (designed_of X p) scs"
  by (induction scs) (auto simp: stage2_trace_def designed_of_def)

lemma build_success_written:
  assumes "build X sched fs ip p mw = (tr, fs', Inr ())"
  shows "written tr = map (designed_of X p) (retrieved2 X sched (as_posix ip))"
proof -
  from build_success_iff [OF assms] have pool: "pool_ok mw" and iv: "inputs_valid X (as_posix ip)"
    and sv: "structured_valid X (as_posix ip)" and wr: "writable X (as_posix ip) p fs" by simp_all
  from build_stage1_passed [OF pool assms iv] obtain tr2 where
    w: "write_configs p (map (stage2_future X) (retrieved2 X sched (as_posix ip))) fs = (tr2, fs', Inr ())"
    and wtr: "written tr = written tr2" by blast
  from sv wr have "\<forall>(h, sc) \<in> set (retrieved2 X sched (as_posix ip)).
       \<not> failed (validate_structured_config X sc) \<and> can_open fs (target p h)"
    by (simp only: retrieved2_all)
  from write_all_valid [OF this] w have "tr2 = stage2_trace X p (retrieved2 X sched (as_posix ip))" by simp
  then show ?thesis by (simp only: wtr written_stage2_trace)
qed

lemma expected_alt:
  "expected_configs X src p
     = map (designed_of X p)
         (map (structured_of X (get_avd_facts X (all_hostvars_of X src))) (all_hostvars_of X src))"
  by (simp add: expected_configs_def designed_of_def structured_of_def split_beta)

lemma designed_retrieved2_mset:
  "mset (map (designed_of X p) (retrieved2 X sched src)) = mset (expected_configs X src p)"
proof -
  let ?hv = "all_hostvars_of X src"
  let ?so = "structured_of X (get_avd_facts X ?hv)"
  have "mset (map (designed_of X p) (retrieved2 X sched src))
      = mset (map (designed_of X p) (map ?so (as_completed (fst sched) ?hv)))"
    unfolding retrieved2_def by (rule mset_map_as_completed)
  also have "\<dots> = mset (map (designed_of X p \<circ> ?so) (as_completed (fst sched) ?hv))"
    by (simp only: map_map)
  also have "\<dots> = mset (map (designed_of X p \<circ> ?so) ?hv)" by (rule mset_map_as_completed)
  also have "\<dots> = mset (expected_configs X src p)" by (simp only: expected_alt map_map)
  finally show ?thesis .
qed

lemma designed_retrieved2:
  "set (map (designed_of X p) (retrieved2 X sched src)) = set (expected_configs X src p)"
  using designed_retrieved2_mset [of X p sched src] by (rule mset_eq_setD)

lemma expected_keys:
  "fst ` set (expected_configs X src p) = target p ` (set (inventory_hosts X src) - {''cvp''})"
proof -
  have "fst ` set (expected_configs X src p) = target p ` fst ` set (all_hostvars_of X src)"
    by (simp add: expected_configs_def image_image split_beta)
  then show ?thesis by (simp only: all_hostvars_keys)
qed

text \<open>Host names without a separator have distinct files.\<close>

lemma hostvars_plain:
  "plain_hosts X src \<Longrightarrow> (h, v) \<in> set (all_hostvars_of X src) \<Longrightarrow> plain h"
proof -
  assume a: "plain_hosts X src" and m: "(h, v) \<in> set (all_hostvars_of X src)"
  from m have "h \<in> fst ` set (all_hostvars_of X src)" by (rule image_eqI [rotated]) simp
  then have "h \<in> set (inventory_hosts X src)" unfolding all_hostvars_keys by simp
  with a show ?thesis by (simp add: plain_hosts_def)
qed

lemma distinct_targets:
  "\<forall>h \<in> set ks. plain h \<Longrightarrow> distinct ks \<Longrightarrow> distinct (map (target p) ks)"
  by (rule distinct_map [THEN iffD2]) (simp add: inj_on_def target_inj)

lemma expected_distinct:
  "plain_hosts X src \<Longrightarrow> distinct (map fst (expected_configs X src p))"
proof -
  assume a: "plain_hosts X src"
  have e: "map fst (expected_configs X src p) = map (target p) (map fst (all_hostvars_of X src))"
    by (simp add: expected_configs_def split_beta)
  have "\<forall>h \<in> set (map fst (all_hostvars_of X src)). plain h"
    using hostvars_plain [OF a] by auto
  from distinct_targets [OF this all_hostvars_distinct] show ?thesis by (simp only: e)
qed

lemma map_of_rev_perm:
  "distinct (map fst ys) \<Longrightarrow> mset xs = mset ys \<Longrightarrow> map_of (rev xs) = map_of ys"
proof -
  assume d: "distinct (map fst ys)" and m: "mset xs = mset ys"
  from m have "image_mset fst (mset xs) = image_mset fst (mset ys)" by (rule arg_cong)
  then have "mset (map fst xs) = mset (map fst ys)" by (simp only: mset_map)
  then have "distinct (map fst xs) = distinct (map fst ys)" by (rule mset_eq_imp_distinct_iff)
  then have "distinct (map fst xs)" using d by (rule iffD2)
  then have "distinct (rev (map fst xs))" by (simp only: distinct_rev)
  then have dr: "distinct (map fst (rev xs))" by (simp only: rev_map)
  from m have "set xs = set ys" by (rule mset_eq_setD)
  then have "set (rev xs) = set ys" by (simp only: set_rev)
  with dr d show ?thesis by (simp only: map_of_inject_set)
qed

lemma build_success_fs:
  assumes "build X sched fs ip p mw = (tr, fs', Inr ())" and "plain_hosts X (as_posix ip)"
  shows "fs' = fs\<lparr>files := files fs ++ map_of (expected_configs X (as_posix ip) p)\<rparr>"
proof -
  have "map_of (rev (written tr)) = map_of (expected_configs X (as_posix ip) p)"
    unfolding build_success_written [OF assms(1)]
    using expected_distinct [OF assms(2)] designed_retrieved2_mset by (rule map_of_rev_perm)
  with build_files [OF assms(1)] show ?thesis by simp
qed


subsection \<open>Failures and files of a run\<close>

lemma pool_ok_iff:
  "pool_ok mw \<longleftrightarrow> mw = None \<or> (\<exists>n. mw = Some n \<and> 0 < n \<and> n < 2147483647)"
  by (cases mw) (auto simp: pool_ok_def pool_error_def)








text \<open>The files of a run that returns normally.\<close>

lemma writable_dirs: "dirs fs' = dirs fs \<Longrightarrow> writable X src p fs' = writable X src p fs"
  by (simp add: writable_def can_open_def)

lemma build_dirs: "build X sched fs ip p mw = (tr, fs', r) \<Longrightarrow> dirs fs' = dirs fs"
proof -
  assume "build X sched fs ip p mw = (tr, fs', r)"
  from build_files [OF this] have "fs' = fs\<lparr>files := files fs ++ map_of (rev (written tr))\<rparr>" .
  then have "dirs fs' = dirs (fs\<lparr>files := files fs ++ map_of (rev (written tr))\<rparr>)" by (rule arg_cong)
  then show ?thesis by simp
qed

lemma map_add_twice: "m ++ e ++ e = m ++ e"
  by (simp add: fun_eq_iff map_add_def split: option.splits)

lemma hosts_hostvars:
  "h \<in> set (inventory_hosts X src) - {''cvp''} \<Longrightarrow>
     (h, get_vars X src h) \<in> set (all_hostvars_of X src)"
proof -
  assume "h \<in> set (inventory_hosts X src) - {''cvp''}"
  then have "h \<in> fst ` set (all_hostvars_of X src)" by (simp only: all_hostvars_keys)
  then obtain v where v: "(h, v) \<in> set (all_hostvars_of X src)" by auto
  from all_hostvars_values [OF v] v show ?thesis by simp
qed

lemma hostvars_hosts:
  "(h, v) \<in> set (all_hostvars_of X src) \<Longrightarrow> h \<in> set (inventory_hosts X src) - {''cvp''}"
proof -
  assume "(h, v) \<in> set (all_hostvars_of X src)"
  then have "fst (h, v) \<in> fst ` set (all_hostvars_of X src)" by (rule imageI)
  then show ?thesis by (simp only: all_hostvars_keys fst_conv)
qed

lemma expected_lookup:
  assumes "plain_hosts X src" and "h \<in> set (inventory_hosts X src) - {''cvp''}"
  shows "map_of (expected_configs X src p) (target p h)
     = Some (get_device_config X
          (get_device_structured_config X h (get_vars X src h)
             (get_avd_facts X (all_hostvars_of X src))))"
proof -
  let ?c = "get_device_config X
          (get_device_structured_config X h (get_vars X src h)
             (get_avd_facts X (all_hostvars_of X src)))"
  from hosts_hostvars [OF assms(2)]
  have "(target p h, ?c) \<in> (\<lambda>(h, v). (target p h,
            get_device_config X
              (get_device_structured_config X h v (get_avd_facts X (all_hostvars_of X src)))))
         ` set (all_hostvars_of X src)" by (rule image_eqI [rotated]) simp
  then have "(target p h, ?c) \<in> set (expected_configs X src p)"
    by (simp add: expected_configs_def)
  with expected_distinct [OF assms(1)] show ?thesis by (rule map_of_is_SomeI)
qed

lemma written_keys:
  assumes "build X sched fs ip p mw = (tr, fs', Inr ())"
  shows "fst ` set (written tr) = target p ` (set (inventory_hosts X (as_posix ip)) - {''cvp''})"
proof -
  have "set (written tr) = set (expected_configs X (as_posix ip) p)"
    unfolding build_success_written [OF assms] by (rule designed_retrieved2)
  then show ?thesis by (simp only: expected_keys)
qed

text \<open>When the destination does not exist and every host passes both validations, the
  first \<^verbatim>\<open>open\<close> raises \<^verbatim>\<open>FileNotFoundError\<close>.\<close>

lemma write_absent_first:
  assumes "scs \<noteq> []" and "\<forall>(h, sc) \<in> set scs. \<not> failed (validate_structured_config X sc) \<and> plain h"
    and "p \<notin> dirs fs" and "p \<notin> dom (files fs)"
  shows "snd (snd (write_configs p (map (stage2_future X) scs) fs))
     = Inl (FileNotFoundError (target p (fst (hd scs))))"
proof -
  from assms(1) obtain x scs' where scs: "scs = x # scs'" by (cases scs) auto
  obtain h sc where x: "x = (h, sc)" by (cases x)
  from assms(2) scs x have ok: "\<not> failed (validate_structured_config X sc)" and pl: "plain h"
    by simp_all
  have "open_w fs (target p h) = Some (FileNotFoundError (target p h))"
    using assms(3,4) by (intro open_w_absent) (simp_all add: directory_of_target [OF pl])
  from write_refused_step [OF ok this] show ?thesis by (simp add: scs x)
qed


subsection \<open>Runs of the small fabric\<close>

lemmas path_defs = Path_def joinpath_def root_of_def components_def as_posix_def target_def
  directory_of_def

lemmas run_defs = build_def all_hostvars_of_def pool_error_def build_structured_config_def
  build_designed_config_def path_defs open_w_def ran_def shutdown_def fabric_def disk_def
  no_disk_def file_disk_def dir_disk_def write_configs.simps Let_def


lemma fabric_run:
  "build fabric ([1], [0]) disk (Path [''fabric'']) (Path [''out'']) (Some 10)
     = (fabric_before @ Submit2 ''leaf2'' ''sc leaf2'' # fabric_after, fabric_disk, Inr ())"
  by (simp add: run_defs fabric_before_def fabric_after_def fabric_disk_def)


subsection \<open>The tasks\<close>

lemma printed_Print: "printed (map Print es) = es"
  by (induction es) simp_all

text \<open>
  C2. \<^const>\<open>build_structured_config\<close> raises exactly when \<^const>\<open>validate_inputs\<close> reports
  failure; it then has printed every entry of \<open>validation_errors\<close>, in order, and has
  not called the generator, so that no structured config exists; otherwise it prints
  nothing and returns the host name with the structured config.
  \<^const>\<open>build_designed_config\<close> does the same against \<^const>\<open>validate_structured_config\<close>
  and returns the rendered config on success.
\<close>

theorem validation_gates:
  "isl (snd (build_structured_config X hostname inputs avd_facts))
     = failed (validate_inputs X inputs)
   \<and> printed (fst (build_structured_config X hostname inputs avd_facts))
     = (if failed (validate_inputs X inputs)
        then validation_errors (validate_inputs X inputs) else [])
   \<and> (failed (validate_inputs X inputs) \<longrightarrow>
        build_structured_config X hostname inputs avd_facts
          = (Validate_inputs inputs # map Print (validation_errors (validate_inputs X inputs)),
             Inl (RuntimeError (hostname @ '' validate_inputs failed''))))
   \<and> (\<not> failed (validate_inputs X inputs) \<longrightarrow>
        snd (build_structured_config X hostname inputs avd_facts)
          = Inr (hostname, get_device_structured_config X hostname inputs avd_facts))
   \<and> isl (snd (build_designed_config X hostname structured_config))
     = failed (validate_structured_config X structured_config)
   \<and> printed (fst (build_designed_config X hostname structured_config))
     = (if failed (validate_structured_config X structured_config)
        then validation_errors (validate_structured_config X structured_config) else [])
   \<and> (failed (validate_structured_config X structured_config) \<longrightarrow>
        build_designed_config X hostname structured_config
          = (Validate_structured_config structured_config
               # map Print (validation_errors (validate_structured_config X structured_config)),
             Inl (RuntimeError (hostname @ '' validate_structured_config failed''))))
   \<and> (\<not> failed (validate_structured_config X structured_config) \<longrightarrow>
        snd (build_designed_config X hostname structured_config)
          = Inr (hostname, get_device_config X structured_config))"
  by (simp add: build_structured_config_def build_designed_config_def Let_def printed_Print)

theorem validation_gates_witness:
  "failed (validate_inputs fabric ''spine1'')
   \<and> build_structured_config fabric ''spine1'' ''spine1'' [''spine1'']
       = ([Validate_inputs ''spine1'', Print ''no id'', Print ''no type''],
          Inl (RuntimeError ''spine1 validate_inputs failed''))
   \<and> \<not> failed (validate_inputs fabric ''leaf1'')
   \<and> snd (build_structured_config fabric ''leaf1'' ''leaf1'' [''leaf1'']) = Inr (''leaf1'', ''sc leaf1'')
   \<and> failed (validate_structured_config fabric ''sc spine2'')
   \<and> build_designed_config fabric ''spine2'' ''sc spine2''
       = ([Validate_structured_config ''sc spine2'', Print ''no asn''],
          Inl (RuntimeError ''spine2 validate_structured_config failed''))
   \<and> \<not> failed (validate_structured_config fabric ''sc leaf1'')
   \<and> snd (build_designed_config fabric ''leaf1'' ''sc leaf1'') = Inr (''leaf1'', ''hostname leaf1'')"
  using validation_gates [of fabric "''spine1''" "''spine1''" "[''spine1'']" "''sc spine1''"]
    validation_gates [of fabric "''spine2''" "''spine2''" "[''spine2'']" "''sc spine2''"]
    validation_gates [of fabric "''leaf1''" "''leaf1''" "[''leaf1'']" "''sc leaf1''"]
  by (simp add: fabric_def)


subsection \<open>The command line\<close>

text \<open>
  C8. The inventory path is required: without it the program ends in the parser. When
  the output directory is not given it is \<^verbatim>\<open>Path("intended", "configs")\<close>, the path
  \<^verbatim>\<open>intended/configs\<close>, and when the worker count is not given it is 10, on the command
  line as in a call of \<^const>\<open>build\<close> that leaves the parameter out.
\<close>

theorem cli_defaults:
  "parse_args Absent o_opt m = Inl (SystemExit 2)
   \<and> main X sched fs Absent o_opt m = ([], fs, Inl (SystemExit 2))
   \<and> parse_args (Given i) Absent Absent
       = Inr \<lparr>inventory_path = Path [i], intended_configs_path = Path [''intended'', ''configs''],
              max_workers = Some 10\<rparr>
   \<and> map_sum id intended_configs_path (parse_args (Given i) Absent m)
       = Inr (Path [''intended'', ''configs''])
   \<and> Path [''intended'', ''configs''] = ([], [''intended'', ''configs''])
   \<and> as_posix (Path [''intended'', ''configs'']) = ''intended/configs''
   \<and> map_sum id max_workers (parse_args (Given i) (Given op) Absent) = Inr (Some 10)
   \<and> build_call X sched fs ip p Omitted = build X sched fs ip p (Some 10)
   \<and> main X sched fs (Given i) Absent Absent
       = build X sched fs (Path [i]) (Path [''intended'', ''configs'']) (Some 10)"
proof -
  have d: "Path [''intended'', ''configs''] = ([], [''intended'', ''configs''])"
    by (simp add: path_defs)
  have a: "as_posix ([], [''intended'', ''configs'']) = ''intended/configs''"
    by (simp add: as_posix_def)
  have c: "parse_args (Given i) Absent m'
       = Inr \<lparr>inventory_path = Path [i], intended_configs_path = Path [''intended'', ''configs''],
              max_workers = (case m' of Absent \<Rightarrow> Some 10 | Flag_only \<Rightarrow> None
                             | Given n \<Rightarrow> Some n)\<rparr>" for m'
    by (simp add: parse_args_def)
  show ?thesis
  proof (intro conjI)
    show "parse_args Absent o_opt m = Inl (SystemExit 2)" by (simp add: parse_args_def)
    show "main X sched fs Absent o_opt m = ([], fs, Inl (SystemExit 2))"
      by (simp add: main_def parse_args_def)
    show "parse_args (Given i) Absent Absent
       = Inr \<lparr>inventory_path = Path [i], intended_configs_path = Path [''intended'', ''configs''],
              max_workers = Some 10\<rparr>" by (simp add: c)
    show "map_sum id intended_configs_path (parse_args (Given i) Absent m)
       = Inr (Path [''intended'', ''configs''])" by (simp add: c)
    show "Path [''intended'', ''configs''] = ([], [''intended'', ''configs''])" by (rule d)
    show "as_posix (Path [''intended'', ''configs'']) = ''intended/configs''"
      unfolding d by (rule a)
    show "map_sum id max_workers (parse_args (Given i) (Given op) Absent) = Inr (Some 10)"
      by (simp add: parse_args_def)
    show "build_call X sched fs ip p Omitted = build X sched fs ip p (Some 10)"
      by (simp add: build_call_def build_max_workers_def)
    show "main X sched fs (Given i) Absent Absent
       = build X sched fs (Path [i]) (Path [''intended'', ''configs'']) (Some 10)"
      by (simp add: main_def c build_call_def build_max_workers_def)
  qed
qed

subsection \<open>The run\<close>


text \<open>
  C3. Whenever a stage 2 task is submitted, for any host, every host's stage 1 task has
  been submitted and its result retrieved (the task has completed and returned its
  structured config), and no event of stage 1 follows; the structured config submitted
  for the host is the one its own stage 1 task returned.
\<close>

theorem barrier:
  assumes "build X sched fs ip p mw = (tr, fs', r)" and "tr = pre @ Submit2 h sc # post"
  shows "(\<forall>e \<in> set post. \<not> stage1_event e)
     \<and> (\<forall>(h', v') \<in> set (all_hostvars_of X (as_posix ip)).
           Submit1 h' v' (get_avd_facts X (all_hostvars_of X (as_posix ip))) \<in> set pre
           \<and> Result1 h' (get_device_structured_config X h' v' (get_avd_facts X (all_hostvars_of X (as_posix ip))))
               \<in> set pre)
     \<and> (\<exists>v. (h, v) \<in> set (all_hostvars_of X (as_posix ip))
           \<and> sc = get_device_structured_config X h v (get_avd_facts X (all_hostvars_of X (as_posix ip))))
     \<and> Result1 h sc \<in> set pre"
proof -
  let ?hv = "all_hostvars_of X (as_posix ip)"
  let ?f = "get_avd_facts X ?hv"
  let ?hv' = "as_completed (fst sched) ?hv"
  have pool: "pool_ok mw"
  proof (rule ccontr)
    assume "\<not> pool_ok mw"
    from build_pool_bad [OF this assms(1)] assms(2) show False by simp
  qed
  from build_shape [OF pool assms(1)] obtain tr1 scs tr2 where
    tr: "tr = Get_avd_facts ?hv # map (\<lambda>(h, v). Submit1 h v ?f) ?hv
              @ tr1 @ map (\<lambda>(h, sc). Submit2 h sc) scs @ tr2"
    and ok1: "\<forall>e \<in> set tr1. stage1_ok ?f (set ?hv) e"
    and ok2: "\<forall>e \<in> set tr2. stage2_ok X p (set scs) e"
    and ne: "scs \<noteq> [] \<longrightarrow> tr1 = stage1_trace X ?f ?hv' \<and> scs = map (structured_of X ?f) ?hv'"
    by blast
  let ?A = "Get_avd_facts ?hv # map (\<lambda>(h, v). Submit1 h v ?f) ?hv @ tr1"
  let ?B = "map (\<lambda>(h, sc). Submit2 h sc) scs"
  have eq: "?A @ ?B @ tr2 = pre @ Submit2 h sc # post" using tr assms(2) by simp
  have n1: "Submit2 h sc \<notin> set tr1" using ok1 by (auto dest: bspec)
  have nC: "Submit2 h sc \<notin> set tr2" using ok2 by (auto dest: bspec)
  have nA: "Submit2 h sc \<notin> set ?A" using n1 by auto
  from split_middle [OF eq nA nC] obtain B1 B2 where
    B: "?B = B1 @ Submit2 h sc # B2" and pre: "pre = ?A @ B1" and post: "post = B2 @ tr2" by blast
  have "Submit2 h sc \<in> set (B1 @ Submit2 h sc # B2)" by simp
  then have mem: "(h, sc) \<in> set scs" unfolding B [symmetric] by (simp add: Submit2_image)
  then have "scs \<noteq> []" by auto
  with ne have tr1: "tr1 = stage1_trace X ?f ?hv'" and scs: "scs = map (structured_of X ?f) ?hv'"
    by simp_all
  have s: "set ?hv' = set ?hv" by (rule set_as_completed)
  from mem s obtain v where v: "(h, v) \<in> set ?hv" "sc = get_device_structured_config X h v ?f"
    unfolding scs by (auto simp: structured_of_def)
  have res: "Result1 h' (get_device_structured_config X h' v' ?f) \<in> set pre"
    if "(h', v') \<in> set ?hv" for h' v'
  proof -
    from that s have "(h', v') \<in> set ?hv'" by simp
    then have "Result1 h' (get_device_structured_config X h' v' ?f) \<in> set tr1"
      unfolding tr1 by (rule stage1_trace_results)
    then show ?thesis by (simp add: pre)
  qed
  have sub: "Submit1 h' v' ?f \<in> set pre" if "(h', v') \<in> set ?hv" for h' v'
    using that by (auto simp: pre intro!: image_eqI [where x = "(h', v')"])
  have "set B2 \<subseteq> set ?B" unfolding B by auto
  then have p2: "\<not> stage1_event e" if "e \<in> set B2" for e
    using that only_Submit2 [of e scs] by blast
  have p3: "\<not> stage1_event e" if "e \<in> set tr2" for e
    using that ok2 stage2_ok_not_stage1 [of X p "set scs" e] by blast
  show ?thesis
  proof (intro conjI)
    show "\<forall>e \<in> set post. \<not> stage1_event e" using p2 p3 by (auto simp: post)
    show "\<forall>(h', v') \<in> set ?hv. Submit1 h' v' ?f \<in> set pre
           \<and> Result1 h' (get_device_structured_config X h' v' ?f) \<in> set pre"
    proof (rule ballI)
      fix x assume x: "x \<in> set ?hv"
      obtain h' v' where "x = (h', v')" by (cases x)
      with x sub [of h' v'] res [of h' v']
      show "case x of (h', v') \<Rightarrow> Submit1 h' v' ?f \<in> set pre
           \<and> Result1 h' (get_device_structured_config X h' v' ?f) \<in> set pre" by simp
    qed
    show "\<exists>v. (h, v) \<in> set ?hv \<and> sc = get_device_structured_config X h v ?f"
      using v by blast
    show "Result1 h sc \<in> set pre" using res [OF v(1)] v(2) by simp
  qed
qed

theorem barrier_witness:
  "build fabric ([1], [0]) disk (Path [''fabric'']) (Path [''out'']) (Some 10)
     = (fabric_before @ Submit2 ''leaf2'' ''sc leaf2'' # fabric_after, fabric_disk, Inr ())
   \<and> filter stage1_event fabric_after = []
   \<and> Result1 ''leaf2'' ''sc leaf2'' \<in> set fabric_before"
  using barrier [OF fabric_run refl] fabric_run by (simp add: filter_empty_conv)




lemma build_empty:
  assumes "pool_ok mw" and "set (inventory_hosts X (as_posix ip)) \<subseteq> {''cvp''}"
  shows "build X sched fs ip p mw = ([Get_avd_facts []], fs, Inr ())"
proof -
  have hv: "all_hostvars_of X (as_posix ip) = []" using assms(2) by (rule all_hostvars_empty)
  have v: "\<forall>(h, v) \<in> set (all_hostvars_of X (as_posix ip)). \<not> failed (validate_inputs X v)"
    by (simp add: hv)
  have w: "write_configs p (map (stage2_future X) (as_completed (snd sched)
           (map (structured_of X (get_avd_facts X (all_hostvars_of X (as_posix ip))))
              (as_completed (fst sched) (all_hostvars_of X (as_posix ip)))))) fs = ([], fs, Inr ())"
    by (simp add: hv)
  from build_stage1_pass [OF assms(1) v w] show ?thesis by (simp add: hv stage1_trace_def)
qed

text \<open>
  C10. An inventory that is empty or holds only \<^verbatim>\<open>cvp\<close> gives an empty dictionary of
  host variables. The pool is created before the fact aggregator is called (line 54), so
  that the run depends on the worker count. With \<^verbatim>\<open>None\<close> or a number from 1 to
  2147483646, \<^const>\<open>build\<close> calls the fact aggregator on the empty dictionary, submits no
  task in either stage, writes nothing (the file system is the one before the run,
  whether or not the destination exists) and returns normally. With a number below 1 it
  raises \<^verbatim>\<open>ValueError\<close>, and with a number above 2147483646 \<^verbatim>\<open>OverflowError\<close>, without
  calling the fact aggregator: the claim as stated, for every worker count, does not hold.
\<close>

theorem empty_inventory:
  assumes "set (inventory_hosts X (as_posix ip)) \<subseteq> {''cvp''}"
  shows "all_hostvars_of X (as_posix ip) = []
     \<and> (mw = None \<or> (\<exists>n. mw = Some n \<and> 0 < n \<and> n < 2147483647) \<longrightarrow>
          build X sched fs ip p mw = ([Get_avd_facts []], fs, Inr ()))
     \<and> (\<forall>n. mw = Some n \<and> n \<le> 0 \<longrightarrow>
          build X sched fs ip p mw
            = ([], fs, Inl (ValueError ''max_workers must be greater than 0'')))
     \<and> (\<forall>n. mw = Some n \<and> 2147483647 \<le> n \<longrightarrow>
          build X sched fs ip p mw = ([], fs, Inl OverflowError))"
proof (intro conjI allI impI)
  show "all_hostvars_of X (as_posix ip) = []" using assms by (rule all_hostvars_empty)
next
  assume "mw = None \<or> (\<exists>n. mw = Some n \<and> 0 < n \<and> n < 2147483647)"
  then have "pool_ok mw" by (simp only: pool_ok_iff)
  then show "build X sched fs ip p mw = ([Get_avd_facts []], fs, Inr ())"
    using assms by (rule build_empty)
next
  fix n assume "mw = Some n \<and> n \<le> 0"
  then have "pool_error mw = Some (ValueError ''max_workers must be greater than 0'')"
    by (simp add: pool_error_def)
  then show "build X sched fs ip p mw
      = ([], fs, Inl (ValueError ''max_workers must be greater than 0''))"
    by (rule build_pool_error)
next
  fix n assume "mw = Some n \<and> 2147483647 \<le> n"
  then have "pool_error mw = Some OverflowError" by (simp add: pool_error_def)
  then show "build X sched fs ip p mw = ([], fs, Inl OverflowError)"
    by (rule build_pool_error)
qed

theorem empty_inventory_witness:
  "set (inventory_hosts fabric (as_posix (Path [''lab'']))) \<subseteq> {''cvp''}
   \<and> build fabric ([], []) no_disk (Path [''lab'']) (Path [''out'']) (Some 10)
       = ([Get_avd_facts []], no_disk, Inr ())
   \<and> build fabric ([], []) no_disk (Path [''lab'']) (Path [''out'']) (Some (- 1))
       = ([], no_disk, Inl (ValueError ''max_workers must be greater than 0''))
   \<and> build fabric ([], []) no_disk (Path [''lab'']) (Path [''out'']) (Some 2147483647)
       = ([], no_disk, Inl OverflowError)"
proof -
  have e: "set (inventory_hosts fabric (as_posix (Path [''lab'']))) \<subseteq> {''cvp''}"
    by (simp add: fabric_def path_defs)
  from empty_inventory [OF e, of "Some 10" "([], [])" no_disk "Path [''out'']"]
    empty_inventory [OF e, of "Some (- 1)" "([], [])" no_disk "Path [''out'']"]
    empty_inventory [OF e, of "Some 2147483647" "([], [])" no_disk "Path [''out'']"]
  have "build fabric ([], []) no_disk (Path [''lab'']) (Path [''out'']) (Some 10)
       = ([Get_avd_facts []], no_disk, Inr ())"
    and "build fabric ([], []) no_disk (Path [''lab'']) (Path [''out'']) (Some (- 1))
       = ([], no_disk, Inl (ValueError ''max_workers must be greater than 0''))"
    and "build fabric ([], []) no_disk (Path [''lab'']) (Path [''out'']) (Some 2147483647)
       = ([], no_disk, Inl OverflowError)"
    by simp_all
  with e show ?thesis by (intro conjI)
qed

text \<open>The run of the claim with the worker count 0: the inventory holds only \<^verbatim>\<open>cvp\<close>,
  and \<^const>\<open>build\<close> raises before anything is recorded.\<close>

theorem empty_inventory_refused:
  "set (inventory_hosts fabric (as_posix (Path [''lab'']))) \<subseteq> {''cvp''}
   \<and> build fabric ([], []) disk (Path [''lab'']) (Path [''out'']) (Some 0)
       = ([], disk, Inl (ValueError ''max_workers must be greater than 0''))"
  by (simp add: build_def pool_error_def fabric_def path_defs)





subsection \<open>Failures\<close>







end
